theory Spec2Isabelle
  imports Complex_Main "HOL-Library.Log_Nat"
begin

section \<open>Go's \<open>float64\<close>\<close>

text \<open>
  The batch controller computes in \<open>float64\<close>. The type is modelled by its values: a
  finite number (a rational; the results of the operations below are always binary64
  numbers), negative zero, the two infinities and NaN. An operation computes the exact
  result and rounds it to the nearest binary64 number, ties to the even significand, as
  IEEE 754 prescribes and as the \<open>amd64\<close> code of the Go compiler does (the compiler may
  fuse \<open>x*y + z\<close> on some other architectures; that is not modelled).
\<close>

datatype f64 = Num rat | NegZero | PInf | NInf | NaN

definition pow2 :: "int \<Rightarrow> rat" where
  "pow2 e = (if 0 \<le> e then 2 ^ nat e else 1 / 2 ^ nat (- e))"

definition ilog2 :: "rat \<Rightarrow> int" where
  \<comment> \<open>for \<open>a > 0\<close>: the integer \<open>k\<close> with \<open>2^k \<le> a < 2^(k+1)\<close>\<close>
  "ilog2 a =
     (let (p, q) = quotient_of a; d = bitlen p - bitlen q
      in if pow2 d \<le> a then d else d - 1)"

definition quantum :: "rat \<Rightarrow> int" where
  \<comment> \<open>the exponent of the last place of the binary64 numbers around \<open>a > 0\<close>; below
      \<open>2^(-1022)\<close> the numbers are subnormal and the exponent stays at \<open>-1074\<close>\<close>
  "quantum a = max (ilog2 a - 52) (- 1074)"

definition round_half_even :: "rat \<Rightarrow> int" where
  "round_half_even q =
     (let n = \<lfloor>q\<rfloor>; d = q - of_int n
      in if d < 1 / 2 then n else if 1 / 2 < d then n + 1 else if even n then n else n + 1)"

definition zero_signed :: "bool \<Rightarrow> f64" where
  "zero_signed neg = (if neg then NegZero else Num 0)"

definition inf_signed :: "bool \<Rightarrow> f64" where
  "inf_signed neg = (if neg then NInf else PInf)"

definition rnd :: "rat \<Rightarrow> f64" where
  \<comment> \<open>rounding of an exact result \<open>x \<noteq> 0\<close> to the nearest multiple \<open>n * 2^e\<close> of the last
      place; a result that rounds to zero keeps its sign, and one that rounds to \<open>2^1024\<close>
      or beyond is an infinity\<close>
  "rnd x =
     (let e = quantum \<bar>x\<bar>; n = round_half_even (\<bar>x\<bar> / pow2 e)
      in if 971 < e \<or> (e = 971 \<and> 2 ^ 53 \<le> n) then inf_signed (x < 0)
         else if n = 0 then zero_signed (x < 0)
         else Num (if x < 0 then - (of_int n * pow2 e) else of_int n * pow2 e))"

fun signbit :: "f64 \<Rightarrow> bool" where
  "signbit (Num r) = (r < 0)"
| "signbit NegZero = True"
| "signbit PInf = False"
| "signbit NInf = True"
| "signbit NaN = False"

fun is_inf :: "f64 \<Rightarrow> bool" where
  "is_inf PInf = True"
| "is_inf NInf = True"
| "is_inf _ = False"

fun is_zero :: "f64 \<Rightarrow> bool" where
  "is_zero (Num r) = (r = 0)"
| "is_zero NegZero = True"
| "is_zero _ = False"

fun val :: "f64 \<Rightarrow> rat" where
  \<comment> \<open>the value of a finite number\<close>
  "val (Num r) = r"
| "val _ = 0"

fun fneg :: "f64 \<Rightarrow> f64" where
  "fneg (Num r) = (if r = 0 then NegZero else Num (- r))"
| "fneg NegZero = Num 0"
| "fneg PInf = NInf"
| "fneg NInf = PInf"
| "fneg NaN = NaN"

definition fadd :: "f64 \<Rightarrow> f64 \<Rightarrow> f64" where
  "fadd x y =
     (if x = NaN \<or> y = NaN then NaN
      else if is_inf x \<and> is_inf y then (if x = y then x else NaN)
      else if is_inf x then x
      else if is_inf y then y
      else if val x + val y = 0 then zero_signed (signbit x \<and> signbit y)
      else rnd (val x + val y))"

definition fsub :: "f64 \<Rightarrow> f64 \<Rightarrow> f64" where
  "fsub x y = fadd x (fneg y)"

definition fmul :: "f64 \<Rightarrow> f64 \<Rightarrow> f64" where
  "fmul x y =
     (if x = NaN \<or> y = NaN then NaN
      else if (is_inf x \<and> is_zero y) \<or> (is_zero x \<and> is_inf y) then NaN
      else if is_inf x \<or> is_inf y then inf_signed (signbit x \<noteq> signbit y)
      else if is_zero x \<or> is_zero y then zero_signed (signbit x \<noteq> signbit y)
      else rnd (val x * val y))"

definition fdiv :: "f64 \<Rightarrow> f64 \<Rightarrow> f64" where
  "fdiv x y =
     (if x = NaN \<or> y = NaN then NaN
      else if (is_inf x \<and> is_inf y) \<or> (is_zero x \<and> is_zero y) then NaN
      else if is_inf x \<or> is_zero y then inf_signed (signbit x \<noteq> signbit y)
      else if is_inf y \<or> is_zero x then zero_signed (signbit x \<noteq> signbit y)
      else rnd (val x / val y))"

fun flt :: "f64 \<Rightarrow> f64 \<Rightarrow> bool" where
  \<comment> \<open>the comparison \<open>x < y\<close>; false when either side is NaN\<close>
  "flt NaN _ = False"
| "flt _ NaN = False"
| "flt PInf _ = False"
| "flt _ NInf = False"
| "flt NInf _ = True"
| "flt _ PInf = True"
| "flt x y = (val x < val y)"

text \<open>
  \<open>math.Max\<close> and \<open>math.Min\<close>, with the special cases their documentation lists:
  \<^verbatim>\<open>
  Max(x, +Inf) = Max(+Inf, x) = +Inf      Min(x, -Inf) = Min(-Inf, x) = -Inf
  Max(x, NaN) = Max(NaN, x) = NaN         Min(x, NaN) = Min(NaN, x) = NaN
  Max(+0, +-0) = Max(+-0, +0) = +0        Min(-0, +-0) = Min(+-0, -0) = -0
  Max(-0, -0) = -0
  \<close>
\<close>

definition math_Max :: "f64 \<Rightarrow> f64 \<Rightarrow> f64" where
  "math_Max x y =
     (if x = PInf \<or> y = PInf then PInf
      else if x = NaN \<or> y = NaN then NaN
      else if is_zero x \<and> is_zero y then (if signbit x then y else x)
      else if flt y x then x else y)"

definition math_Min :: "f64 \<Rightarrow> f64 \<Rightarrow> f64" where
  "math_Min x y =
     (if x = NInf \<or> y = NInf then NInf
      else if x = NaN \<or> y = NaN then NaN
      else if is_zero x \<and> is_zero y then (if signbit x then x else y)
      else if flt x y then x else y)"

text \<open>
  Conversions. \<open>float64(n)\<close> rounds the integer. \<open>int(x)\<close> and \<open>time.Duration(x)\<close>
  drop the fraction; where the result does not fit a 64-bit integer (also for NaN and the
  infinities) the language leaves the value to the implementation, which is the
  parameter \<open>impl\<close>: on \<open>amd64\<close> it is the smallest 64-bit integer.
\<close>

definition f64_of_int :: "int \<Rightarrow> f64" where
  "f64_of_int n = (if n = 0 then Num 0 else rnd (of_int n))"

definition trunc_zero :: "rat \<Rightarrow> int" where
  "trunc_zero r = (if 0 \<le> r then \<lfloor>r\<rfloor> else \<lceil>r\<rceil>)"

definition is_int64 :: "int \<Rightarrow> bool" where
  "is_int64 n \<longleftrightarrow> - (2 ^ 63) \<le> n \<and> n < 2 ^ 63"

fun int_of_f64 :: "(f64 \<Rightarrow> int) \<Rightarrow> f64 \<Rightarrow> int" where
  "int_of_f64 impl (Num r) = (if is_int64 (trunc_zero r) then trunc_zero r else impl (Num r))"
| "int_of_f64 impl NegZero = 0"
| "int_of_f64 impl x = impl x"

definition amd64 :: "f64 \<Rightarrow> int" where
  "amd64 x = - (2 ^ 63)"

definition lit :: "rat \<Rightarrow> f64" where
  \<comment> \<open>a constant of the source converted to \<open>float64\<close>\<close>
  "lit c = (if c = 0 then Num 0 else rnd c)"

section \<open>Strings and UTF-8\<close>

text \<open>
  A Go \<open>string\<close> is a sequence of bytes, modelled as an Isabelle \<open>string\<close>.
  \<open>encoding/json\<close> is a library, not part of the repository, but two things it does to
  strings decide what the agent puts on the wire and what it reads, so they are modelled
  after the library's documented behaviour.

  The first is the coercion to valid UTF-8. \<open>json.Marshal\<close> writes every byte of a
  string that does not belong to a valid UTF-8 encoding as U+FFFD, and the decoder does the
  same to the bytes of a string it reads. \<open>rune_len\<close> follows \<open>utf8.DecodeRuneInString\<close>:
  the number of bytes of the encoding at the head of the string, or 0 when the head is not
  a valid encoding (overlong forms, surrogates and values above U+10FFFF are not valid).
\<close>

definition cont :: "char \<Rightarrow> bool" where
  \<comment> \<open>a continuation byte\<close>
  "cont c \<longleftrightarrow> (128::nat) \<le> of_char c \<and> of_char c \<le> (191::nat)"

definition second_ok :: "nat \<Rightarrow> char \<Rightarrow> bool" where
  \<comment> \<open>the range of the second byte after the first byte \<open>b\<close>\<close>
  "second_ok b c =
     (if b = 224 then (160::nat) \<le> of_char c \<and> of_char c \<le> (191::nat)
      else if b = 237 then (128::nat) \<le> of_char c \<and> of_char c \<le> (159::nat)
      else if b = 240 then (144::nat) \<le> of_char c \<and> of_char c \<le> (191::nat)
      else if b = 244 then (128::nat) \<le> of_char c \<and> of_char c \<le> (143::nat)
      else cont c)"

fun rune_len :: "string \<Rightarrow> nat" where
  "rune_len [] = 0"
| "rune_len (c # cs) =
     (let b = of_char c :: nat
      in if b < 128 then 1
         else if 194 \<le> b \<and> b \<le> 223 then
           (case cs of c1 # r \<Rightarrow> if cont c1 then 2 else 0 | [] \<Rightarrow> 0)
         else if 224 \<le> b \<and> b \<le> 239 then
           (case cs of
              c1 # c2 # r \<Rightarrow> if second_ok b c1 \<and> cont c2 then 3 else 0
            | _ \<Rightarrow> 0)
         else if 240 \<le> b \<and> b \<le> 244 then
           (case cs of
              c1 # c2 # c3 # r \<Rightarrow> if second_ok b c1 \<and> cont c2 \<and> cont c3 then 4 else 0
            | _ \<Rightarrow> 0)
         else 0)"

definition replacement :: string where
  \<comment> \<open>the UTF-8 encoding of U+FFFD\<close>
  "replacement = [CHR 0xEF, CHR 0xBF, CHR 0xBD]"

function to_valid_utf8 :: "string \<Rightarrow> string" where
  "to_valid_utf8 [] = []"
| "to_valid_utf8 (c # cs) =
     (if rune_len (c # cs) = 0 then replacement @ to_valid_utf8 cs
      else take (rune_len (c # cs)) (c # cs) @ to_valid_utf8 (drop (rune_len (c # cs)) (c # cs)))"
  by pat_completeness auto

termination to_valid_utf8
  by (relation "measure length") auto

function utf8_ValidString :: "string \<Rightarrow> bool" where
  "utf8_ValidString [] = True"
| "utf8_ValidString (c # cs) =
     (if rune_len (c # cs) = 0 then False
      else utf8_ValidString (drop (rune_len (c # cs)) (c # cs)))"
  by pat_completeness auto

termination utf8_ValidString
  by (relation "measure length") auto

text \<open>
  The second is the comparison of the key of a member with the name of a field: equal up
  to Unicode simple case folding. All field names of the agent are ASCII, and the letters
  that fold to an ASCII letter are the ASCII letters, U+017F (which folds to \<open>S\<close>) and
  U+212A (which folds to \<open>K\<close>). \<open>fold_key\<close> gives the folded key as a list of codes, bytes
  outside ASCII standing for themselves.
\<close>

definition fold_code :: "nat \<Rightarrow> nat" where
  "fold_code n = (if 97 \<le> n \<and> n \<le> 122 then n - 32 else n)"

function fold_key :: "string \<Rightarrow> nat list" where
  "fold_key [] = []"
| "fold_key (c # cs) =
     (if c = CHR 0xC5 \<and> take 1 cs = [CHR 0xBF] then 83 # fold_key (drop 1 cs)
      else if c = CHR 0xE2 \<and> take 2 cs = [CHR 0x84, CHR 0xAA] then 75 # fold_key (drop 2 cs)
      else fold_code (of_char c) # fold_key cs)"
  by pat_completeness auto

termination fold_key
  by (relation "measure length") auto

definition key_is :: "string \<Rightarrow> string \<Rightarrow> bool" where
  "key_is name k \<longleftrightarrow> fold_key (to_valid_utf8 k) = fold_key name"

section \<open>Data model of the agent\<close>

text \<open>
  The Go source declares the wire types as structs with JSON field tags:
  \<^verbatim>\<open>
  type MessageContext struct {
      Tags         []string    `json:"tags,omitempty"`
      Limit        interface{} `json:"-"`
      WaitResponse bool        `json:"wait,omitempty"`
      Entity       string      `json:"entity,omitempty"`
  }
  type Message struct {
      Data        string         `json:"data,omitempty"`
      Context     MessageContext `json:"context,omitempty"`
      MsgType     string         `json:"msg_type,omitempty"`
      Destination string         `json:"dest,omitempty"`
      Timestamp   string         `json:"timestamp,omitempty"`
  }
  type ResponseMessage struct {
      Status  string `json:"status"`
      Message string `json:"message,omitempty"`
  }
  \<close>
  A slice is modelled as a list (the nil slice and the empty slice are the same list), and
  the empty interface as an optional dynamically typed value: \<open>None\<close> is the nil
  interface. A map with string keys is the list of its entries, one for a key, ordered by
  key, which is the order in which \<open>json.Marshal\<close> writes them.
\<close>

datatype go_any =
    GoInt int
  | GoInt64 int
  | GoFloat64 f64
  | GoString string
  | GoBool bool
  | GoSlice "go_any option list"
  | GoMap "(string \<times> go_any option) list"

record MessageContext =
  Tags :: "string list"
  Limit :: "go_any option"
  WaitResponse :: bool
  Entity :: string

record Message =
  Data :: string
  Context :: MessageContext
  MsgType :: string
  Destination :: string
  Timestamp :: string

record ResponseMessage =
  Status :: string
  Message :: string

definition zero_MessageContext :: MessageContext where
  "zero_MessageContext = \<lparr>Tags = [], Limit = None, WaitResponse = False, Entity = ''''\<rparr>"

definition zero_Message :: Message where
  "zero_Message =
     \<lparr>Data = '''', Context = zero_MessageContext, MsgType = '''', Destination = '''',
      Timestamp = ''''\<rparr>"

section \<open>JSON values and the struct tags\<close>

text \<open>
  The model stops at JSON values: an object is the list of its members in order, a string
  is the sequence of bytes its text denotes, and the text itself (spacing, escapes) is not
  modelled. What the repository decides is which fields go on the wire and under which
  key, and that is what the encoding functions follow: a field tagged \<open>omitempty\<close> is left
  out when it is the empty string, \<open>false\<close> or a slice of length 0 (the option has no
  effect on a struct-typed field, so \<open>context\<close> is always written), and the field tagged
  \<open>"-"\<close> is neither written nor read. Every string is written coerced to valid UTF-8.
\<close>

datatype json =
    JNull
  | JBool bool
  | JNumber rat
  | JString string
  | JArray "json list"
  | JObject "(string \<times> json) list"

definition omitempty_string :: "string \<Rightarrow> string \<Rightarrow> (string \<times> json) list" where
  "omitempty_string k s = (if s = [] then [] else [(k, JString (to_valid_utf8 s))])"

definition encode_MessageContext :: "MessageContext \<Rightarrow> json" where
  "encode_MessageContext c =
     JObject
       ((if length (Tags c) = 0 then []
         else [(''tags'', JArray (map (\<lambda>t. JString (to_valid_utf8 t)) (Tags c)))])
        @ (if WaitResponse c then [(''wait'', JBool True)] else [])
        @ omitempty_string ''entity'' (Entity c))"

definition encode_Message :: "Message \<Rightarrow> json" where
  "encode_Message m =
     JObject
       (omitempty_string ''data'' (Data m)
        @ [(''context'', encode_MessageContext (Context m))]
        @ omitempty_string ''msg_type'' (MsgType m)
        @ omitempty_string ''dest'' (Destination m)
        @ omitempty_string ''timestamp'' (Timestamp m))"

definition encode_ResponseMessage :: "ResponseMessage \<Rightarrow> json" where
  "encode_ResponseMessage r =
     JObject
       ([(''status'', JString (to_valid_utf8 (Status r)))] @ omitempty_string ''message'' (Message r))"

text \<open>
  Decoding into a struct. The members of an object are taken in order, each into the field
  its key names (\<open>key_is\<close>); a member whose key names no field is ignored. A value of the
  wrong JSON type is an \<open>UnmarshalTypeError\<close>, after which the caller discards the
  message. \<open>null\<close> leaves a string, a boolean or a struct as it is, and sets a slice to
  nil.

  An array is decoded into the slice the field holds, element by element into the
  elements the slice has in its array: a \<open>null\<close> element keeps what is there. This shows
  when an object has two members for the same field. The decoding functions therefore
  carry, next to a struct, the elements that lie in the array of its slice behind the
  length of the slice; a fresh struct has none, and an element that was never written is
  the zero value. The empty array gives a fresh empty slice.
\<close>

datatype decode_error = UnmarshalTypeError string

fun decode_string :: "string \<Rightarrow> json \<Rightarrow> string \<Rightarrow> decode_error + string" where
  "decode_string f (JString s) cur = Inr (to_valid_utf8 s)"
| "decode_string f JNull cur = Inr cur"
| "decode_string f _ cur = Inl (UnmarshalTypeError f)"

fun decode_bool :: "string \<Rightarrow> json \<Rightarrow> bool \<Rightarrow> decode_error + bool" where
  "decode_bool f (JBool b) cur = Inr b"
| "decode_bool f JNull cur = Inr cur"
| "decode_bool f _ cur = Inl (UnmarshalTypeError f)"

fun decode_array ::
  "(json \<Rightarrow> 'a \<Rightarrow> decode_error + 'a) \<Rightarrow> 'a \<Rightarrow> json list \<Rightarrow> 'a list \<Rightarrow> decode_error + 'a list" where
  \<comment> \<open>\<open>arr\<close> is what the array of the slice holds from the current index on\<close>
  "decode_array dec zero [] arr = Inr []"
| "decode_array dec zero (v # vs) arr =
     (case dec v (case arr of [] \<Rightarrow> zero | x # xs \<Rightarrow> x) of
        Inl e \<Rightarrow> Inl e
      | Inr y \<Rightarrow>
          (case decode_array dec zero vs (tl arr) of
             Inl e \<Rightarrow> Inl e
           | Inr ys \<Rightarrow> Inr (y # ys)))"

fun decode_slice ::
  "string \<Rightarrow> (json \<Rightarrow> 'a \<Rightarrow> decode_error + 'a) \<Rightarrow> 'a \<Rightarrow> json \<Rightarrow> 'a list \<times> 'a list \<Rightarrow>
   decode_error + 'a list \<times> 'a list" where
  \<comment> \<open>the slice and what lies behind it, before and after\<close>
  "decode_slice f dec zero (JArray vs) (cur, behind) =
     (if vs = [] then Inr ([], [])
      else (case decode_array dec zero vs (cur @ behind) of
              Inl e \<Rightarrow> Inl e
            | Inr ys \<Rightarrow> Inr (ys, drop (length vs) (cur @ behind))))"
| "decode_slice f dec zero JNull (cur, behind) = Inr ([], [])"
| "decode_slice f dec zero _ (cur, behind) = Inl (UnmarshalTypeError f)"

fun decode_context_members ::
  "(string \<times> json) list \<Rightarrow> MessageContext \<times> string list \<Rightarrow>
   decode_error + MessageContext \<times> string list" where
  "decode_context_members [] (c, behind) = Inr (c, behind)"
| "decode_context_members ((k, v) # kvs) (c, behind) =
     (if key_is ''tags'' k then
        (case decode_slice ''tags'' (decode_string ''tags'') '''' v (Tags c, behind) of
           Inl e \<Rightarrow> Inl e
         | Inr (t, behind') \<Rightarrow> decode_context_members kvs (c\<lparr>Tags := t\<rparr>, behind'))
      else if key_is ''wait'' k then
        (case decode_bool ''wait'' v (WaitResponse c) of
           Inl e \<Rightarrow> Inl e
         | Inr b \<Rightarrow> decode_context_members kvs (c\<lparr>WaitResponse := b\<rparr>, behind))
      else if key_is ''entity'' k then
        (case decode_string ''entity'' v (Entity c) of
           Inl e \<Rightarrow> Inl e
         | Inr s \<Rightarrow> decode_context_members kvs (c\<lparr>Entity := s\<rparr>, behind))
      else decode_context_members kvs (c, behind))"

fun decode_MessageContext ::
  "json \<Rightarrow> MessageContext \<times> string list \<Rightarrow> decode_error + MessageContext \<times> string list" where
  "decode_MessageContext (JObject kvs) cur = decode_context_members kvs cur"
| "decode_MessageContext JNull cur = Inr cur"
| "decode_MessageContext _ cur = Inl (UnmarshalTypeError ''context'')"

fun decode_message_members ::
  "(string \<times> json) list \<Rightarrow> Message \<times> string list \<Rightarrow> decode_error + Message \<times> string list" where
  "decode_message_members [] (m, behind) = Inr (m, behind)"
| "decode_message_members ((k, v) # kvs) (m, behind) =
     (if key_is ''data'' k then
        (case decode_string ''data'' v (Data m) of
           Inl e \<Rightarrow> Inl e
         | Inr s \<Rightarrow> decode_message_members kvs (m\<lparr>Data := s\<rparr>, behind))
      else if key_is ''context'' k then
        (case decode_MessageContext v (Context m, behind) of
           Inl e \<Rightarrow> Inl e
         | Inr (c, behind') \<Rightarrow> decode_message_members kvs (m\<lparr>Context := c\<rparr>, behind'))
      else if key_is ''msg_type'' k then
        (case decode_string ''msg_type'' v (MsgType m) of
           Inl e \<Rightarrow> Inl e
         | Inr s \<Rightarrow> decode_message_members kvs (m\<lparr>MsgType := s\<rparr>, behind))
      else if key_is ''dest'' k then
        (case decode_string ''dest'' v (Destination m) of
           Inl e \<Rightarrow> Inl e
         | Inr s \<Rightarrow> decode_message_members kvs (m\<lparr>Destination := s\<rparr>, behind))
      else if key_is ''timestamp'' k then
        (case decode_string ''timestamp'' v (Timestamp m) of
           Inl e \<Rightarrow> Inl e
         | Inr s \<Rightarrow> decode_message_members kvs (m\<lparr>Timestamp := s\<rparr>, behind))
      else decode_message_members kvs (m, behind))"

fun decode_Message_into ::
  "json \<Rightarrow> Message \<times> string list \<Rightarrow> decode_error + Message \<times> string list" where
  "decode_Message_into (JObject kvs) cur = decode_message_members kvs cur"
| "decode_Message_into JNull cur = Inr cur"
| "decode_Message_into _ cur = Inl (UnmarshalTypeError ''Message'')"

definition decode_Message :: "json \<Rightarrow> decode_error + Message" where
  \<comment> \<open>into a fresh \<open>var msg Message\<close>\<close>
  "decode_Message j = map_sum id fst (decode_Message_into j (zero_Message, []))"

text \<open>
  Decoding into an empty interface gives \<open>nil\<close> for \<open>null\<close>, a \<open>bool\<close>, a \<open>float64\<close>
  for a number (the nearest one; a number out of the range of \<open>float64\<close> is an error and
  leaves \<open>nil\<close>), a \<open>string\<close>, a slice for an array and a map for an object, in which the
  last member with a key wins. The number \<open>-0\<close> is not told from \<open>0\<close> in a JSON value of
  this model.
\<close>

fun key_less :: "string \<Rightarrow> string \<Rightarrow> bool" where
  "key_less [] [] = False"
| "key_less [] (b # bs) = True"
| "key_less (a # as) [] = False"
| "key_less (a # as) (b # bs) =
     (if (of_char a :: nat) < of_char b then True
      else if (of_char b :: nat) < of_char a then False
      else key_less as bs)"

fun map_put :: "string \<Rightarrow> 'v \<Rightarrow> (string \<times> 'v) list \<Rightarrow> (string \<times> 'v) list" where
  "map_put k v [] = [(k, v)]"
| "map_put k v ((k', v') # kvs) =
     (if k = k' then (k, v) # kvs
      else if key_less k k' then (k, v) # (k', v') # kvs
      else (k', v') # map_put k v kvs)"

definition make_map :: "(string \<times> 'v) list \<Rightarrow> (string \<times> 'v) list" where
  "make_map kvs = fold (\<lambda>(k, v). map_put (to_valid_utf8 k) v) kvs []"

primrec decode_interface :: "json \<Rightarrow> go_any option" where
  "decode_interface JNull = None"
| "decode_interface (JBool b) = Some (GoBool b)"
| "decode_interface (JNumber r) =
     (case lit r of PInf \<Rightarrow> None | NInf \<Rightarrow> None | x \<Rightarrow> Some (GoFloat64 x))"
| "decode_interface (JString s) = Some (GoString (to_valid_utf8 s))"
| "decode_interface (JArray vs) = Some (GoSlice (map decode_interface vs))"
| "decode_interface (JObject kvs) =
     Some (GoMap (make_map (map (map_prod id decode_interface) kvs)))"

section \<open>Configuration and metrics\<close>

text \<open>
  The \<open>Config\<close> struct; a \<open>time.Duration\<close> is its number of nanoseconds, and Go's \<open>int\<close>
  is an integer (the 64-bit range is stated where a conversion depends on it).
\<close>

record Config =
  AppURL :: string
  LinuxPath :: string
  SocketPath :: string
  FlushInterval :: int
  BatchSize :: int
  ApiKey :: string
  MinBatchSize :: int
  MaxBatchSize :: int
  ScaleFactor :: f64
  MaxQueueSize :: int
  TargetCPUPercent :: f64
  TargetMemPercent :: f64
  MinBatchInterval :: int
  MaxBatchInterval :: int

record SystemMetrics =
  CPUUsage :: f64
  MemoryUsage :: f64
  QueueLoad :: f64

definition millisecond :: int where
  "millisecond = 1000000"

definition default_Config :: "string \<Rightarrow> Config" where
  \<comment> \<open>the configuration with no flag but the key, on a Unix host\<close>
  "default_Config key =
     \<lparr>AppURL = ''https://app.tendrl.com/api'',
      LinuxPath = ''/var/lib/tendrl'',
      SocketPath = ''/var/lib/tendrl/tendrl_agent.sock'',
      FlushInterval = 250 * millisecond,
      BatchSize = 10,
      ApiKey = key,
      MinBatchSize = 10,
      MaxBatchSize = 200,
      ScaleFactor = lit (1 / 2),
      MaxQueueSize = 1000,
      TargetCPUPercent = lit 70,
      TargetMemPercent = lit 80,
      MinBatchInterval = 100 * millisecond,
      MaxBatchInterval = 1000 * millisecond\<rparr>"

text \<open>
  \<open>InitializeConfig\<close>. The flags are given by their values after \<open>flag.Parse\<close> (the
  default where the command line has none); the other inputs are the environment variable
  \<open>TENDRL_KEY\<close> and whether the host is Windows. Without a key the process exits with
  code 1.
\<close>

datatype exit = Exit int

record flags =
  apiKey :: string
  flushInterval :: int
  batchSize :: int
  minBatchSize :: int
  maxBatchSize :: int
  scaleFactor :: f64
  maxQueue :: int
  targetCPU :: f64
  targetMem :: f64
  minInterval :: int
  maxInterval :: int

definition backslash :: char where
  "backslash = CHR 0x5C"

definition default_flags :: flags where
  "default_flags =
     \<lparr>apiKey = '''', flushInterval = 250 * millisecond, batchSize = 10, minBatchSize = 10,
      maxBatchSize = 200, scaleFactor = lit (1 / 2), maxQueue = 1000, targetCPU = lit 70,
      targetMem = lit 80, minInterval = 100 * millisecond, maxInterval = 1000 * millisecond\<rparr>"

definition InitializeConfig :: "flags \<Rightarrow> string \<Rightarrow> bool \<Rightarrow> exit + Config" where
  "InitializeConfig fl TENDRL_KEY windows =
     (let key = (if apiKey fl = '''' then TENDRL_KEY else apiKey fl);
          dir = (if windows then ''C:'' @ backslash # ''ProgramData'' @ backslash # ''tendrl''
                 else ''/var/lib/tendrl'')
      in if key = '''' then Inl (Exit 1)
         else Inr \<lparr>AppURL = ''https://app.tendrl.com/api'',
                   LinuxPath = dir,
                   SocketPath =
                     dir @ (if windows then backslash # ''tendrl_agent.sock''
                            else ''/tendrl_agent.sock''),
                   FlushInterval = flushInterval fl,
                   BatchSize = batchSize fl,
                   ApiKey = key,
                   MinBatchSize = minBatchSize fl,
                   MaxBatchSize = maxBatchSize fl,
                   ScaleFactor = scaleFactor fl,
                   MaxQueueSize = maxQueue fl,
                   TargetCPUPercent = targetCPU fl,
                   TargetMemPercent = targetMem fl,
                   MinBatchInterval = minInterval fl,
                   MaxBatchInterval = maxInterval fl\<rparr>)"

section \<open>The upstream client\<close>

text \<open>
  The HTTP client and the server behind it are the environment. A request is answered by
  an error (from \<open>http.NewRequest\<close> or \<open>client.Do\<close>, given by its text) or by a status
  code and a body; the body is either a JSON value or the text of the error the decoder
  reports on it. The answer may depend on how many requests were made before.
  What is written on the local connection is either literal bytes, or the bytes
  \<open>json.Marshal\<close> produces for a value of the wire types (given as the JSON value), or
  the bytes it produces for a value held in an empty interface.
\<close>

record http_request =
  verb :: string
  url :: string
  authorization :: string
  content_type :: string
  body :: "json option"

datatype http_result = TransportError string | Response int "string + json"

record upstream =
  do :: "nat \<Rightarrow> http_request \<Rightarrow> http_result"
  json_error :: "decode_error \<Rightarrow> string"

datatype wire = Raw string | Marshal json | MarshalAny "go_any option"

text \<open>
  The state of one connection handler: what it has written, the messages it has sent on
  \<open>messageQueue\<close>, the requests it has made upstream, whether it has left the loop and
  closed the connection, and whether it is caught in the loop on an error of the decoder
  that does not go away.
\<close>

record handler =
  written :: "wire list"
  enqueued :: "Message list"
  requests :: "http_request list"
  conn_closed :: bool
  spinning :: bool

definition new_handler :: handler where
  "new_handler =
     \<lparr>written = [], enqueued = [], requests = [], conn_closed = False, spinning = False\<rparr>"

fun show_nat :: "nat \<Rightarrow> string" where
  "show_nat n =
     (if n < 10 then [''0123456789'' ! n]
      else show_nat (n div 10) @ [''0123456789'' ! (n mod 10)])"

declare show_nat.simps [simp del]

definition show_int :: "int \<Rightarrow> string" where
  \<comment> \<open>the verb \<open>%d\<close>\<close>
  "show_int i = (if i < 0 then CHR ''-'' # show_nat (nat (- i)) else show_nat (nat i))"

definition decode_messages :: "json list \<Rightarrow> decode_error + Message list" where
  \<comment> \<open>the elements of an array into a fresh \<open>[]Message\<close>\<close>
  "decode_messages vs =
     map_sum id (map fst) (decode_array decode_Message_into (zero_Message, []) vs [])"

fun decode_response_members ::
  "(string \<times> json) list \<Rightarrow> (Message \<times> string list) list \<times> (Message \<times> string list) list \<Rightarrow>
   decode_error + (Message \<times> string list) list \<times> (Message \<times> string list) list" where
  "decode_response_members [] cur = Inr cur"
| "decode_response_members ((k, v) # kvs) cur =
     (if key_is ''messages'' k then
        (case decode_slice ''messages'' decode_Message_into (zero_Message, []) v cur of
           Inl e \<Rightarrow> Inl e
         | Inr cur' \<Rightarrow> decode_response_members kvs cur')
      else decode_response_members kvs cur)"

fun decode_response :: "json \<Rightarrow> decode_error + Message list" where
  \<comment> \<open>into \<open>struct { Messages []Message `json:"messages"` }\<close>\<close>
  "decode_response (JObject kvs) =
     map_sum id (\<lambda>cur. map fst (fst cur)) (decode_response_members kvs ([], []))"
| "decode_response JNull = Inr []"
| "decode_response _ = Inl (UnmarshalTypeError ''response'')"

definition send :: "upstream \<Rightarrow> http_request \<Rightarrow> handler \<Rightarrow> http_result \<times> handler" where
  "send up req s = (do up (length (requests s)) req, s\<lparr>requests := requests s @ [req]\<rparr>)"

definition check_request :: "Config \<Rightarrow> int \<Rightarrow> http_request" where
  "check_request cfg limit =
     \<lparr>verb = ''GET'',
      url = AppURL cfg @ ''/entities/check_messages?limit='' @ show_int limit,
      authorization = ''Bearer '' @ ApiKey cfg,
      content_type = ''application/json'',
      body = None\<rparr>"

definition checkMessage ::
  "Config \<Rightarrow> upstream \<Rightarrow> int \<Rightarrow> handler \<Rightarrow> (string + Message list) \<times> handler" where
  "checkMessage cfg up limit s =
     (case send up (check_request cfg limit) s of
        (TransportError e, s') \<Rightarrow> (Inl e, s')
      | (Response code b, s') \<Rightarrow>
          if code = 204 then (Inr [], s')
          else if code \<noteq> 200 then (Inl (''unexpected status code: '' @ show_int code), s')
          else (case b of
                  Inl e \<Rightarrow> (Inl e, s')
                | Inr j \<Rightarrow>
                    (case decode_response j of
                       Inl e \<Rightarrow> (Inl (json_error up e), s')
                     | Inr ms \<Rightarrow> (Inr ms, s'))))"

definition single_request :: "Config \<Rightarrow> Message \<Rightarrow> http_request" where
  "single_request cfg msg =
     \<lparr>verb = ''POST'',
      url = AppURL cfg @ ''/entities/message'',
      authorization = ''Bearer '' @ ApiKey cfg,
      content_type = ''application/json'',
      body = Some (encode_Message msg)\<rparr>"

definition sendSingleMessage ::
  "Config \<Rightarrow> upstream \<Rightarrow> Message \<Rightarrow> handler \<Rightarrow> go_any option \<times> handler" where
  \<comment> \<open>the status code is not looked at; the body is decoded into an empty interface, and
      a body that is not JSON leaves the result nil\<close>
  "sendSingleMessage cfg up msg s =
     (case send up (single_request cfg msg) s of
        (TransportError e, s') \<Rightarrow> (Some (GoMap [(''error'', Some (GoString e))]), s')
      | (Response code b, s') \<Rightarrow>
          (case b of Inl e \<Rightarrow> (None, s') | Inr j \<Rightarrow> (decode_interface j, s')))"

section \<open>The connection handler\<close>

definition conn_Write :: "wire \<Rightarrow> handler \<Rightarrow> handler" where
  "conn_Write w s = s\<lparr>written := written s @ [w]\<rparr>"

definition sendErrorResponse :: "string \<Rightarrow> handler \<Rightarrow> handler" where
  "sendErrorResponse errorMsg s =
     conn_Write (Marshal (encode_ResponseMessage \<lparr>Status = ''error'', Message = errorMsg\<rparr>)) s"

definition ValidateClientContext :: "MessageContext \<Rightarrow> string option" where
  "ValidateClientContext ctx =
     (if length (Tags ctx) > 10 then Some ''too many tags provided; maximum is 10'' else None)"

definition poll_and_reply :: "Config \<Rightarrow> upstream \<Rightarrow> int \<Rightarrow> handler \<Rightarrow> handler" where
  \<comment> \<open>lines 159 to 170 of \<open>ProcessMessage\<close>\<close>
  "poll_and_reply cfg up limit s =
     (case checkMessage cfg up limit s of
        (Inl e, s') \<Rightarrow> sendErrorResponse e s'
      | (Inr messages, s') \<Rightarrow>
          if length messages = 0 then conn_Write (Raw ''204'') s'
          else conn_Write (Marshal (JArray (map encode_Message messages))) s')"

definition ProcessMessage :: "Config \<Rightarrow> upstream \<Rightarrow> Message \<Rightarrow> handler \<Rightarrow> handler" where
  "ProcessMessage cfg up msg s =
     (if MsgType msg = ''msg_check'' then
        (case Limit (Context msg) of
           None \<Rightarrow> poll_and_reply cfg up 1 s
         | Some (GoInt limit) \<Rightarrow> poll_and_reply cfg up limit s
         | Some _ \<Rightarrow> sendErrorResponse ''Invalid limit type'' s)
      else if MsgType msg = ''publish'' then
        (if WaitResponse (Context msg) then
           (case sendSingleMessage cfg up msg s of (resp, s') \<Rightarrow> conn_Write (MarshalAny resp) s')
         else s\<lparr>enqueued := enqueued s @ [msg]\<rparr>)
      else sendErrorResponse ''Unknown message type'' s)"

text \<open>
  \<open>HandleConnection\<close> calls \<open>decoder.Decode\<close> in a loop. An item is what one call
  yields:
  \<^item> \<open>EndOfStream\<close>: \<open>io.EOF\<close>, the stream ends between two values; the handler leaves
    the loop and closes the connection;
  \<^item> \<open>Malformed e\<close>: an error before a whole value was read (a syntax error, an error of
    the connection, the end of the stream inside a value). The decoder keeps such an
    error and returns it from every later call, so the \<open>continue\<close> of the handler
    leads to the same error again: the handler prints it for ever, reads nothing
    more, and never closes the connection;
  \<^item> \<open>Value j\<close>: a JSON value, which is then decoded into a fresh \<open>Message\<close>. When a
    member has the wrong type the call returns an \<open>UnmarshalTypeError\<close>, the value is
    used up, and the handler goes on with the next call without writing anything.
  The function runs the loop over the items that have arrived; when they are used up the
  handler waits for more, with the connection open. The send on \<open>messageQueue\<close> is
  recorded in \<open>enqueued\<close>; when and whether it completes is part of the model of the
  worker below (\<open>Offer\<close>), and a handler whose send does not complete goes no further.
\<close>

datatype item = EndOfStream | Malformed string | Value json

fun HandleConnection :: "Config \<Rightarrow> upstream \<Rightarrow> item list \<Rightarrow> handler \<Rightarrow> handler" where
  "HandleConnection cfg up [] s = s"
| "HandleConnection cfg up (EndOfStream # rest) s = s\<lparr>conn_closed := True\<rparr>"
| "HandleConnection cfg up (Malformed e # rest) s = s\<lparr>spinning := True\<rparr>"
| "HandleConnection cfg up (Value j # rest) s =
     (case decode_Message j of
        Inl e \<Rightarrow> HandleConnection cfg up rest s
      | Inr msg \<Rightarrow>
          (case ValidateClientContext (Context msg) of
             Some err \<Rightarrow> HandleConnection cfg up rest (sendErrorResponse err s)
           | None \<Rightarrow> HandleConnection cfg up rest (ProcessMessage cfg up msg s)))"

section \<open>The batch controller\<close>

text \<open>
  \<open>getSystemMetrics\<close>: the two probes of the host answer with a percentage or fail, and a
  failed probe leaves the field at zero; the queue load is computed from the number of
  messages waiting in the channel.
\<close>

definition getSystemMetrics ::
  "Config \<Rightarrow> f64 option \<Rightarrow> f64 option \<Rightarrow> nat \<Rightarrow> SystemMetrics" where
  "getSystemMetrics cfg cpuPercent usedPercent queue_len =
     \<lparr>CPUUsage = (case cpuPercent of None \<Rightarrow> Num 0 | Some c \<Rightarrow> c),
      MemoryUsage = (case usedPercent of None \<Rightarrow> Num 0 | Some u \<Rightarrow> u),
      QueueLoad =
        fmul (fdiv (f64_of_int (int queue_len)) (f64_of_int (MaxQueueSize cfg))) (lit 100)\<rparr>"

definition resourceFactor :: "Config \<Rightarrow> SystemMetrics \<Rightarrow> f64" where
  "resourceFactor cfg metrics =
     (let cpuFactor = math_Max (lit 0) (fsub (lit 1) (fdiv (CPUUsage metrics) (TargetCPUPercent cfg)));
          memFactor = math_Max (lit 0) (fsub (lit 1) (fdiv (MemoryUsage metrics) (TargetMemPercent cfg)));
          queueFactor = math_Min (lit 1) (fdiv (QueueLoad metrics) (lit 50))
      in fadd (fadd (fmul cpuFactor (lit (2 / 5))) (fmul memFactor (lit (2 / 5))))
              (fmul queueFactor (lit (1 / 5))))"

definition calculateDynamicBatchSize :: "(f64 \<Rightarrow> int) \<Rightarrow> Config \<Rightarrow> SystemMetrics \<Rightarrow> int" where
  "calculateDynamicBatchSize impl cfg metrics =
     (let newBatchSize =
            int_of_f64 impl (fmul (f64_of_int (MaxBatchSize cfg)) (resourceFactor cfg metrics))
      in if newBatchSize < MinBatchSize cfg then MinBatchSize cfg
         else if newBatchSize > MaxBatchSize cfg then MaxBatchSize cfg
         else newBatchSize)"

definition flush_interval :: "(f64 \<Rightarrow> int) \<Rightarrow> Config \<Rightarrow> SystemMetrics \<Rightarrow> int" where
  \<comment> \<open>lines 247 to 251 of \<open>ProcessQueue\<close>\<close>
  "flush_interval impl cfg metrics =
     (let interval =
            int_of_f64 impl
              (fmul (f64_of_int (MaxBatchInterval cfg))
                    (fsub (lit 1) (fdiv (QueueLoad metrics) (lit 100))))
      in if interval < MinBatchInterval cfg then MinBatchInterval cfg else interval)"

section \<open>The egress worker\<close>

text \<open>
  \<open>ProcessQueue\<close> is a loop around a \<open>select\<close> with three cases. The model is a step
  function over events. Besides the three cases of the worker the events include what the
  handlers do to the channel, so that a run is a closed history of the queue:
  \<^item> \<open>Offer m\<close>: a handler executes \<open>messageQueue <- msg\<close>. With room in the buffer the
    send completes; with the buffer full (always, when the capacity is 0) the handler
    blocks and waits in line; on a closed channel the send panics;
  \<^item> \<open>Recv c u\<close>: the worker receives, the head of the buffer or, with an empty buffer,
    from the first handler waiting; the first handler waiting then completes its send;
  \<^item> \<open>Tick\<close>: the ticker fires and the worker takes that case;
  \<^item> \<open>Done\<close>: the worker takes the case \<open><-done\<close>. \<open>close(messageQueue)\<close> makes every
    handler that waits in a send panic, and a panic that no one recovers ends the process.
  \<open>c\<close> and \<open>u\<close> are the answers of the CPU and memory probes during that iteration.
  \<open>flushed\<close> lists the arguments of the calls of \<open>FlushBatch\<close> and \<open>posted\<close> the
  requests these calls make, one POST for a call. What becomes of a request is only
  printed (a URL that \<open>http.NewRequest\<close> refuses, an error of the client, an answer
  other than 201): whatever it is, the batch is not sent again. \<open>sent\<close> is a history
  variable, the messages whose send completed. A size too large for the allocator also
  makes \<open>make\<close> panic; that limit belongs to the platform and is not modelled.
\<close>

datatype event =
    Offer Message
  | Recv "f64 option" "f64 option"
  | Tick
  | Done

datatype panic = NonPositiveTicker | NegativeCapacity | SendOnClosedChannel

record worker =
  batch :: "Message list"
  ticker :: "int option"
  flushed :: "Message list list"
  posted :: "http_request list"
  queue :: "Message list"
  waiting :: "Message list"
  closed :: bool
  returned :: bool
  sent :: "Message list"

definition batch_request :: "Config \<Rightarrow> Message list \<Rightarrow> http_request" where
  \<comment> \<open>the request \<open>FlushBatch\<close> issues; any answer but 201 is printed and the batch is gone\<close>
  "batch_request cfg b =
     \<lparr>verb = ''POST'',
      url = AppURL cfg @ ''/messages'',
      authorization = ''Bearer '' @ ApiKey cfg,
      content_type = ''application/json'',
      body = Some (JArray (map encode_Message b))\<rparr>"

definition FlushBatch :: "Config \<Rightarrow> Message list \<Rightarrow> worker \<Rightarrow> worker" where
  "FlushBatch cfg b w = w\<lparr>flushed := flushed w @ [b], posted := posted w @ [batch_request cfg b]\<rparr>"

definition ProcessQueue_start :: "Config \<Rightarrow> panic + worker" where
  \<comment> \<open>\<open>make\<close> panics on a negative size and \<open>time.NewTicker\<close> on a non-positive period\<close>
  "ProcessQueue_start cfg =
     (if MaxQueueSize cfg < 0 \<or> MaxBatchSize cfg < 0 then Inl NegativeCapacity
      else if MinBatchInterval cfg \<le> 0 then Inl NonPositiveTicker
      else Inr \<lparr>batch = [], ticker = Some (MinBatchInterval cfg), flushed = [], posted = [],
                queue = [], waiting = [], closed = False, returned = False, sent = []\<rparr>)"

definition on_message ::
  "(f64 \<Rightarrow> int) \<Rightarrow> Config \<Rightarrow> Message \<Rightarrow> f64 option \<Rightarrow> f64 option \<Rightarrow> worker \<Rightarrow> panic + worker" where
  \<comment> \<open>the case \<open>msg := <-messageQueue\<close>, after the message has left the channel\<close>
  "on_message impl cfg msg c u w =
     (let w1 = w\<lparr>batch := batch w @ [msg]\<rparr>;
          metrics = getSystemMetrics cfg c u (length (queue w1));
          dynamicBatchSize = calculateDynamicBatchSize impl cfg metrics;
          interval = flush_interval impl cfg metrics
      in if interval \<le> 0 then Inl NonPositiveTicker
         else let w2 = w1\<lparr>ticker := Some interval\<rparr>
              in if int (length (batch w2)) \<ge> dynamicBatchSize
                 then Inr ((FlushBatch cfg (batch w2) w2)\<lparr>batch := []\<rparr>)
                 else Inr w2)"

definition on_tick :: "Config \<Rightarrow> worker \<Rightarrow> worker" where
  "on_tick cfg w =
     (if length (batch w) > 0 then (FlushBatch cfg (batch w) w)\<lparr>batch := []\<rparr> else w)"

definition on_done :: "Config \<Rightarrow> worker \<Rightarrow> worker" where
  \<comment> \<open>the case \<open><-done\<close> when no handler waits in a send\<close>
  "on_done cfg w =
     (let w1 = w\<lparr>closed := True\<rparr>;
          w2 = w1\<lparr>batch := batch w1 @ queue w1, queue := []\<rparr>;
          w3 = (if length (batch w2) > 0 then FlushBatch cfg (batch w2) w2 else w2)
      in w3\<lparr>ticker := None, returned := True\<rparr>)"

definition receive :: "worker \<Rightarrow> (Message \<times> worker) option" where
  \<comment> \<open>what \<open><-messageQueue\<close> takes from the channel, if it can proceed\<close>
  "receive w =
     (case queue w of
        m # ms \<Rightarrow>
          (case waiting w of
             [] \<Rightarrow> Some (m, w\<lparr>queue := ms\<rparr>)
           | x # xs \<Rightarrow> Some (m, w\<lparr>queue := ms @ [x], waiting := xs, sent := sent w @ [x]\<rparr>))
      | [] \<Rightarrow>
          (case waiting w of
             [] \<Rightarrow> None
           | x # xs \<Rightarrow> Some (x, w\<lparr>waiting := xs, sent := sent w @ [x]\<rparr>)))"

fun ProcessQueue_step :: "(f64 \<Rightarrow> int) \<Rightarrow> Config \<Rightarrow> event \<Rightarrow> worker \<Rightarrow> panic + worker" where
  "ProcessQueue_step impl cfg (Offer m) w =
     (if closed w then Inl SendOnClosedChannel
      else if int (length (queue w)) < MaxQueueSize cfg
           then Inr (w\<lparr>queue := queue w @ [m], sent := sent w @ [m]\<rparr>)
           else Inr (w\<lparr>waiting := waiting w @ [m]\<rparr>))"
| "ProcessQueue_step impl cfg (Recv c u) w =
     (if returned w then Inr w
      else (case receive w of
              None \<Rightarrow> Inr w
            | Some (m, w') \<Rightarrow> on_message impl cfg m c u w'))"
| "ProcessQueue_step impl cfg Tick w = (if returned w then Inr w else Inr (on_tick cfg w))"
| "ProcessQueue_step impl cfg Done w =
     (if returned w then Inr w
      else if waiting w = [] then Inr (on_done cfg w)
      else Inl SendOnClosedChannel)"

fun ProcessQueue_run :: "(f64 \<Rightarrow> int) \<Rightarrow> Config \<Rightarrow> event list \<Rightarrow> worker \<Rightarrow> panic + worker" where
  "ProcessQueue_run impl cfg [] w = Inr w"
| "ProcessQueue_run impl cfg (e # es) w =
     (case ProcessQueue_step impl cfg e w of
        Inl p \<Rightarrow> Inl p
      | Inr w' \<Rightarrow> ProcessQueue_run impl cfg es w')"

definition ProcessQueue :: "(f64 \<Rightarrow> int) \<Rightarrow> Config \<Rightarrow> event list \<Rightarrow> panic + worker" where
  "ProcessQueue impl cfg es =
     (case ProcessQueue_start cfg of Inl p \<Rightarrow> Inl p | Inr w \<Rightarrow> ProcessQueue_run impl cfg es w)"

section \<open>The process\<close>

text \<open>
  \<open>main\<close>, from the point where the listener is bound (before that it reads the
  configuration, makes the channel and the directories, and exits with code 1 when the
  listener cannot be bound). It starts \<open>ProcessQueue\<close> and the goroutine that waits for
  a signal, and then loops on \<open>listener.Accept\<close>:
  \<^verbatim>\<open>
      go ProcessQueue()
      go func() { <-signalChannel; close(done); ...; listener.Close() }()
      for {
          conn, err := listener.Accept()
          if err != nil {
              select {
              case <-done: return
              default: ...; continue
              }
          }
          go HandleConnection(conn)
      }
  \<close>
  The goroutines run interleaved, and a run of the process is a sequence of their steps:
  \<^item> \<open>Signal\<close>: the signal arrives and \<open>done\<close> is closed (closing the listener makes
    a later \<open>Accept\<close> fail);
  \<^item> \<open>AcceptError\<close>: \<open>Accept\<close> returns an error. With \<open>done\<close> closed \<open>main\<close> returns,
    and when \<open>main\<close> returns the process is over: Go does not wait for the other
    goroutines, and \<open>main\<close> does not wait for the worker. Without \<open>done\<close> closed the
    error is printed and the loop goes on;
  \<^item> \<open>Egress e\<close>: a step of the worker, or of a handler on the channel (an accepted
    connection starts a handler, and \<open>Offer\<close> is its send). The worker can take the
    case \<open><-done\<close> only when \<open>done\<close> is closed.
  After the end of the process no step has an effect. A panic ends the run.
\<close>

datatype action = Signal | AcceptError | Egress event

record process =
  egress :: worker
  done_closed :: bool
  exited :: bool

definition main_start :: "Config \<Rightarrow> panic + process" where
  "main_start cfg =
     (case ProcessQueue_start cfg of
        Inl p \<Rightarrow> Inl p
      | Inr w \<Rightarrow> Inr \<lparr>egress = w, done_closed = False, exited = False\<rparr>)"

definition egress_step :: "(f64 \<Rightarrow> int) \<Rightarrow> Config \<Rightarrow> event \<Rightarrow> process \<Rightarrow> panic + process" where
  "egress_step impl cfg e p =
     (case ProcessQueue_step impl cfg e (egress p) of
        Inl x \<Rightarrow> Inl x
      | Inr w \<Rightarrow> Inr (p\<lparr>egress := w\<rparr>))"

fun main_step :: "(f64 \<Rightarrow> int) \<Rightarrow> Config \<Rightarrow> action \<Rightarrow> process \<Rightarrow> panic + process" where
  "main_step impl cfg Signal p = Inr (if exited p then p else p\<lparr>done_closed := True\<rparr>)"
| "main_step impl cfg AcceptError p =
     Inr (if exited p then p else if done_closed p then p\<lparr>exited := True\<rparr> else p)"
| "main_step impl cfg (Egress Done) p =
     (if exited p then Inr p
      else if done_closed p then egress_step impl cfg Done p
      else Inr p)"
| "main_step impl cfg (Egress e) p = (if exited p then Inr p else egress_step impl cfg e p)"

fun main_run :: "(f64 \<Rightarrow> int) \<Rightarrow> Config \<Rightarrow> action list \<Rightarrow> process \<Rightarrow> panic + process" where
  "main_run impl cfg [] p = Inr p"
| "main_run impl cfg (a # as) p =
     (case main_step impl cfg a p of
        Inl x \<Rightarrow> Inl x
      | Inr p' \<Rightarrow> main_run impl cfg as p')"

definition main :: "(f64 \<Rightarrow> int) \<Rightarrow> Config \<Rightarrow> action list \<Rightarrow> panic + process" where
  "main impl cfg as =
     (case main_start cfg of Inl x \<Rightarrow> Inl x | Inr p \<Rightarrow> main_run impl cfg as p)"

section \<open>Sample inputs\<close>

text \<open>
  Concrete inputs at which the theorems below are instantiated: an upstream that gives the
  same answer to every request, a message with eleven tags, the same with an object for
  \<open>data\<close>, three publishes, a message with text outside ASCII, and a history of the
  worker.
\<close>

definition always :: "http_result \<Rightarrow> upstream" where
  "always r = \<lparr>do = (\<lambda>n req. r), json_error = (\<lambda>e. ''json: cannot unmarshal'')\<rparr>"

definition eleven_tags :: json where
  "eleven_tags =
     JObject
       [(''msg_type'', JString ''publish''),
        (''context'',
         JObject
           [(''tags'',
             JArray
               (map JString
                  [''a'', ''b'', ''c'', ''d'', ''e'', ''f'', ''g'', ''h'', ''i'', ''j'', ''k'']))])]"

definition eleven_tags_object_data :: json where
  "eleven_tags_object_data =
     JObject
       [(''msg_type'', JString ''publish''),
        (''data'', JObject [(''temperature'', JNumber 21)]),
        (''context'',
         JObject
           [(''tags'',
             JArray
               (map JString
                  [''a'', ''b'', ''c'', ''d'', ''e'', ''f'', ''g'', ''h'', ''i'', ''j'', ''k'']))])]"

definition publish_x :: json where
  "publish_x = JObject [(''msg_type'', JString ''publish''), (''data'', JString ''x'')]"

definition msg_a :: Message where
  "msg_a = zero_Message\<lparr>MsgType := ''publish'', Data := ''a''\<rparr>"

definition msg_b :: Message where
  "msg_b = zero_Message\<lparr>MsgType := ''publish'', Data := ''b''\<rparr>"

definition msg_c :: Message where
  "msg_c = zero_Message\<lparr>MsgType := ''publish'', Data := ''c''\<rparr>"

definition msg_utf8 :: Message where
  \<comment> \<open>the data is the text \<open>20 \<degree>C\<close> in UTF-8\<close>
  "msg_utf8 =
     \<lparr>Data = [CHR ''2'', CHR ''0'', CHR '' '', CHR 0xC2, CHR 0xB0, CHR ''C''],
      Context = \<lparr>Tags = [''room'', ''t''], Limit = None, WaitResponse = True, Entity = ''e1''\<rparr>,
      MsgType = ''publish'', Destination = ''d1'', Timestamp = ''2024-01-01T00:00:00Z''\<rparr>"

definition history :: "event list" where
  "history =
     [Offer msg_a, Recv (Some (Num 35)) (Some (Num 20)), Tick, Offer msg_b, Recv None None,
      Offer msg_c]"

definition before_done :: worker where
  "before_done =
     \<lparr>batch = [msg_b], ticker = Some (1000 * millisecond), flushed = [[msg_a]],
      posted = [batch_request (default_Config ''key'') [msg_a]],
      queue = [msg_c], waiting = [], closed = False, returned = False,
      sent = [msg_a, msg_b, msg_c]\<rparr>"

definition idle :: SystemMetrics where
  "idle = \<lparr>CPUUsage = Num 0, MemoryUsage = Num 0, QueueLoad = Num 0\<rparr>"

section \<open>Predicates of the statements\<close>

text \<open>
  A message all of whose strings are valid UTF-8, and a string of ASCII characters.
\<close>

definition valid_Message :: "Message \<Rightarrow> bool" where
  "valid_Message m \<longleftrightarrow>
     utf8_ValidString (Data m) \<and> list_all utf8_ValidString (Tags (Context m))
     \<and> utf8_ValidString (Entity (Context m)) \<and> utf8_ValidString (MsgType m)
     \<and> utf8_ValidString (Destination m) \<and> utf8_ValidString (Timestamp m)"

definition ascii :: "string \<Rightarrow> bool" where
  "ascii s = list_all (\<lambda>c. (of_char c :: nat) < 128) s"

text \<open>
  The invariant of the worker: what has been sent is what has been flushed, followed by
  the buffer and by the queue; every batch flushed has been posted; once the worker has
  returned, all of it has been flushed.
\<close>

definition accounted :: "Config \<Rightarrow> worker \<Rightarrow> bool" where
  "accounted cfg w \<longleftrightarrow>
     posted w = map (batch_request cfg) (flushed w)
     \<and> (if returned w
        then concat (flushed w) = sent w \<and> queue w = [] \<and> closed w \<and> ticker w = None
        else concat (flushed w) @ batch w @ queue w = sent w \<and> \<not> closed w)"

section \<open>Strings that the coercion leaves alone\<close>

lemma to_valid_utf8_valid: "utf8_ValidString s \<Longrightarrow> to_valid_utf8 s = s"
  by (induction s rule: to_valid_utf8.induct) (auto split: if_splits)

lemma ascii_valid: "ascii s \<Longrightarrow> utf8_ValidString s"
  by (induction s) (auto simp: ascii_def Let_def)

lemma to_valid_utf8_ascii: "ascii s \<Longrightarrow> to_valid_utf8 s = s"
  by (simp add: to_valid_utf8_valid ascii_valid)

lemma ascii_append: "ascii (s @ t) \<longleftrightarrow> ascii s \<and> ascii t"
  by (simp add: ascii_def)

lemma ascii_show_nat: "ascii (show_nat n)"
proof (induction n rule: show_nat.induct)
  case (1 n)
  have d: "ascii [''0123456789'' ! k]" if "k < 10" for k
  proof -
    from that have "k \<in> {0, 1, 2, 3, 4, 5, 6, 7, 8, 9}" by auto
    then show ?thesis by (auto simp: ascii_def)
  qed
  show ?case
  proof (cases "n < 10")
    case True
    then show ?thesis by (simp add: show_nat.simps [of n] d)
  next
    case False
    then show ?thesis using 1 by (simp add: show_nat.simps [of n] ascii_append d)
  qed
qed

lemma ascii_show_int: "ascii (show_int i)"
  using ascii_show_nat by (simp add: show_int_def ascii_def)

text \<open>
  What the coercion gives is valid UTF-8.
\<close>

lemma rune_len_le: "rune_len s \<le> length s"
  by (cases s) (auto simp: Let_def split: list.splits)

lemma rune_len_1: "(of_char c :: nat) < 128 \<Longrightarrow> rune_len (c # xs) = 1"
  by simp

lemma rune_len_2:
  "194 \<le> (of_char c :: nat) \<Longrightarrow> (of_char c :: nat) \<le> 223 \<Longrightarrow>
   rune_len (c # xs) = (case xs of c1 # r \<Rightarrow> if cont c1 then 2 else 0 | [] \<Rightarrow> 0)"
  by simp

lemma rune_len_3:
  "224 \<le> (of_char c :: nat) \<Longrightarrow> (of_char c :: nat) \<le> 239 \<Longrightarrow>
   rune_len (c # xs) =
     (case xs of
        c1 # c2 # r \<Rightarrow> if second_ok (of_char c) c1 \<and> cont c2 then 3 else 0
      | _ \<Rightarrow> 0)"
  by simp

lemma rune_len_4:
  "240 \<le> (of_char c :: nat) \<Longrightarrow> (of_char c :: nat) \<le> 244 \<Longrightarrow>
   rune_len (c # xs) =
     (case xs of
        c1 # c2 # c3 # r \<Rightarrow>
          if second_ok (of_char c) c1 \<and> cont c2 \<and> cont c3 then 4 else 0
      | _ \<Rightarrow> 0)"
  by simp

lemma rune_len_0:
  "128 \<le> (of_char c :: nat) \<Longrightarrow> (of_char c :: nat) < 194 \<or> 244 < (of_char c :: nat) \<Longrightarrow>
   rune_len (c # xs) = 0"
  by auto

lemma rune_len_take:
  assumes "rune_len (c # cs) \<noteq> 0"
  shows "rune_len (c # take (rune_len (c # cs) - 1) cs @ t) = rune_len (c # cs)"
proof -
  consider (a) "(of_char c :: nat) < 128"
    | (b) "194 \<le> (of_char c :: nat)" "(of_char c :: nat) \<le> 223"
    | (c) "224 \<le> (of_char c :: nat)" "(of_char c :: nat) \<le> 239"
    | (d) "240 \<le> (of_char c :: nat)" "(of_char c :: nat) \<le> 244"
    | (e) "128 \<le> (of_char c :: nat)" "(of_char c :: nat) < 194 \<or> 244 < (of_char c :: nat)"
    by linarith
  then show ?thesis
  proof cases
    case a
    then show ?thesis by (simp only: rune_len_1)
  next
    case b
    from assms show ?thesis
      unfolding rune_len_2 [OF b] by (cases cs) (simp_all split: if_splits)
  next
    case c
    from assms show ?thesis
      unfolding rune_len_3 [OF c]
      by (cases cs; cases "tl cs") (auto split: if_splits)
  next
    case d
    from assms show ?thesis
      unfolding rune_len_4 [OF d]
      by (cases cs; cases "tl cs"; cases "tl (tl cs)") (auto split: if_splits)
  next
    case e
    with assms show ?thesis by (simp only: rune_len_0)
  qed
qed
lemma rune_len_replacement: "rune_len (replacement @ t) = 3"
  by (simp add: replacement_def cont_def second_ok_def)

lemma valid_replacement: "utf8_ValidString (replacement @ t) = utf8_ValidString t"
  using rune_len_replacement [of t] by (simp add: replacement_def)

lemma valid_to_valid_utf8: "utf8_ValidString (to_valid_utf8 s)"
proof (induction s rule: to_valid_utf8.induct)
  case 1
  show ?case by simp
next
  case (2 c cs)
  show ?case
  proof (cases "rune_len (c # cs) = 0")
    case True
    with 2 show ?thesis by (simp add: valid_replacement)
  next
    case False
    let ?n = "rune_len (c # cs)"
    let ?r = "to_valid_utf8 (drop ?n (c # cs))"
    have n: "?n \<le> Suc (length cs)" using rune_len_le [of "c # cs"] by simp
    have pos: "0 < ?n" using False by simp
    have t: "take ?n (c # cs) = c # take (?n - 1) cs"
      using pos by (cases ?n) simp_all
    have l: "rune_len (c # take (?n - 1) cs @ ?r) = ?n"
      using False by (rule rune_len_take)
    have len: "length (c # take (?n - 1) cs) = ?n"
      using n pos by auto
    have d: "drop ?n (c # take (?n - 1) cs @ ?r) = ?r"
      using len by (metis append_Cons append_eq_conv_conj)
    have "utf8_ValidString (c # take (?n - 1) cs @ ?r) = utf8_ValidString ?r"
      using False by (simp only: utf8_ValidString.simps l d) simp
    moreover have "utf8_ValidString ?r" using 2(2) False by simp
    moreover have "to_valid_utf8 (c # cs) = c # take (?n - 1) cs @ ?r"
      using False t by simp
    ultimately show ?thesis by simp
  qed
qed

text \<open>
  The keys of the wire format, compared with a key of ASCII letters.
\<close>

lemma fold_key_ascii: "ascii s \<Longrightarrow> fold_key s = map (\<lambda>c. fold_code (of_char c)) s"
proof (induction s)
  case Nil
  show ?case by simp
next
  case (Cons c cs)
  then have "(of_char c :: nat) < 128" and "ascii cs" by (simp_all add: ascii_def)
  moreover from this have "c \<noteq> CHR 0xC5" and "c \<noteq> CHR 0xE2" by auto
  ultimately show ?case using Cons.IH by simp
qed

lemma key_is_ascii:
  "ascii k \<Longrightarrow> ascii name \<Longrightarrow>
   key_is name k \<longleftrightarrow> map (\<lambda>c. fold_code (of_char c)) k = map (\<lambda>c. fold_code (of_char c)) name"
  by (simp add: key_is_def to_valid_utf8_ascii fold_key_ascii)

section \<open>The wire format of a message\<close>

lemma decode_array_JString:
  "list_all utf8_ValidString ts \<Longrightarrow>
   decode_array (decode_string f) z (map (\<lambda>t. JString (to_valid_utf8 t)) ts) arr = Inr ts"
  by (induction ts arbitrary: arr) (simp_all add: to_valid_utf8_valid)

lemma key_data [simp]:
  "key_is ''data'' ''data''" "\<not> key_is ''data'' ''context''" "\<not> key_is ''data'' ''msg_type''"
  "\<not> key_is ''data'' ''dest''" "\<not> key_is ''data'' ''timestamp''"
  by (simp_all add: key_is_ascii ascii_def fold_code_def)

lemma key_context [simp]:
  "key_is ''context'' ''context''" "\<not> key_is ''context'' ''msg_type''"
  "\<not> key_is ''context'' ''dest''" "\<not> key_is ''context'' ''timestamp''"
  by (simp_all add: key_is_ascii ascii_def fold_code_def)

lemma key_msg_type [simp]:
  "key_is ''msg_type'' ''msg_type''" "\<not> key_is ''msg_type'' ''dest''"
  "\<not> key_is ''msg_type'' ''timestamp''"
  by (simp_all add: key_is_ascii ascii_def fold_code_def)

lemma key_dest [simp]:
  "key_is ''dest'' ''dest''" "\<not> key_is ''dest'' ''timestamp''"
  by (simp_all add: key_is_ascii ascii_def fold_code_def)

lemma key_timestamp [simp]: "key_is ''timestamp'' ''timestamp''"
  by (simp add: key_is_ascii ascii_def fold_code_def)

lemma key_tags [simp]:
  "key_is ''tags'' ''tags''" "\<not> key_is ''tags'' ''wait''" "\<not> key_is ''tags'' ''entity''"
  "\<not> key_is ''tags'' ''limit''"
  by (simp_all add: key_is_ascii ascii_def fold_code_def)

lemma key_wait [simp]:
  "key_is ''wait'' ''wait''" "\<not> key_is ''wait'' ''entity''" "\<not> key_is ''wait'' ''limit''"
  by (simp_all add: key_is_ascii ascii_def fold_code_def)

lemma key_entity [simp]: "key_is ''entity'' ''entity''" "\<not> key_is ''entity'' ''limit''"
  by (simp_all add: key_is_ascii ascii_def fold_code_def)

lemma key_messages [simp]: "key_is ''messages'' ''messages''"
  by (simp add: key_is_ascii ascii_def fold_code_def)

lemma decode_context_roundtrip:
  assumes "list_all utf8_ValidString (Tags c)" and "utf8_ValidString (Entity c)"
  shows "decode_MessageContext (encode_MessageContext c) (zero_MessageContext, []) =
           Inr (c\<lparr>Limit := None\<rparr>, [])"
  using assms
  by (cases c)
     (simp add: encode_MessageContext_def omitempty_string_def zero_MessageContext_def
        decode_array_JString to_valid_utf8_valid)

text \<open>
  For a message whose strings are valid UTF-8, encoding and decoding gives back the message
  but for \<open>Limit\<close>: the field carries the tag \<open>json:"-"\<close> and is not written.
\<close>

lemma roundtrip_valid:
  assumes "valid_Message m"
  shows "decode_Message (encode_Message m) = Inr (m\<lparr>Context := (Context m)\<lparr>Limit := None\<rparr>\<rparr>)"
proof -
  have c: "decode_MessageContext (encode_MessageContext (Context m)) (zero_MessageContext, []) =
             Inr ((Context m)\<lparr>Limit := None\<rparr>, [])"
    using assms by (intro decode_context_roundtrip) (simp_all add: valid_Message_def)
  have v: "to_valid_utf8 (Data m) = Data m" "to_valid_utf8 (MsgType m) = MsgType m"
    "to_valid_utf8 (Destination m) = Destination m" "to_valid_utf8 (Timestamp m) = Timestamp m"
    using assms by (simp_all add: valid_Message_def to_valid_utf8_valid)
  show ?thesis
    using c v
    by (cases m)
       (simp add: decode_Message_def encode_Message_def omitempty_string_def zero_Message_def)
qed

text \<open>
  Claim C4, as the code and the library have it. For a message whose strings are valid
  UTF-8, encoding it and decoding the result gives a message, equal to the original in
  \<open>data\<close>, \<open>context.tags\<close>, \<open>context.wait\<close>, \<open>context.entity\<close>, \<open>msg_type\<close>,
  \<open>dest\<close> and \<open>timestamp\<close>.
\<close>

theorem roundtrip_without_limit:
  assumes "valid_Message m"
  shows "\<exists>m'. decode_Message (encode_Message m) = Inr m'
           \<and> Data m' = Data m
           \<and> Tags (Context m') = Tags (Context m)
           \<and> WaitResponse (Context m') = WaitResponse (Context m)
           \<and> Entity (Context m') = Entity (Context m)
           \<and> MsgType m' = MsgType m
           \<and> Destination m' = Destination m
           \<and> Timestamp m' = Timestamp m"
  using roundtrip_valid [OF assms] by simp

text \<open>
  Claim C4 at a message with two tags, the wait flag, an entity, a destination, a
  timestamp and data outside ASCII.
\<close>

theorem roundtrip_without_limit_witness:
  "valid_Message msg_utf8
   \<and> (\<exists>m'. decode_Message (encode_Message msg_utf8) = Inr m'
           \<and> Data m' = [CHR ''2'', CHR ''0'', CHR '' '', CHR 0xC2, CHR 0xB0, CHR ''C'']
           \<and> Tags (Context m') = [''room'', ''t'']
           \<and> WaitResponse (Context m')
           \<and> Entity (Context m') = ''e1''
           \<and> MsgType m' = ''publish''
           \<and> Destination m' = ''d1''
           \<and> Timestamp m' = ''2024-01-01T00:00:00Z'')"
proof -
  have v: "valid_Message msg_utf8"
    by (simp add: valid_Message_def msg_utf8_def cont_def)
  from roundtrip_without_limit [OF v] v show ?thesis
    by (simp add: msg_utf8_def)
qed

text \<open>
  Claim C4 as stated fails at two messages. One has the integer 5 for \<open>context.limit\<close>:
  the field is not written, and the decoded message has none. The other has for \<open>data\<close>
  the byte \<open>0xFF\<close>, which is not UTF-8: the encoder writes U+FFFD for it, and that is
  what the decoded message holds.
\<close>

theorem roundtrip_limit_counterexample:
  "decode_Message
     (encode_Message
        \<lparr>Data = '''',
         Context = \<lparr>Tags = [], Limit = Some (GoInt 5), WaitResponse = False, Entity = ''''\<rparr>,
         MsgType = ''msg_check'', Destination = '''', Timestamp = ''''\<rparr>)
   = Inr \<lparr>Data = '''',
          Context = \<lparr>Tags = [], Limit = None, WaitResponse = False, Entity = ''''\<rparr>,
          MsgType = ''msg_check'', Destination = '''', Timestamp = ''''\<rparr>
   \<and> decode_Message
     (encode_Message
        \<lparr>Data = '''',
         Context = \<lparr>Tags = [], Limit = Some (GoInt 5), WaitResponse = False, Entity = ''''\<rparr>,
         MsgType = ''msg_check'', Destination = '''', Timestamp = ''''\<rparr>)
   \<noteq> Inr \<lparr>Data = '''',
          Context = \<lparr>Tags = [], Limit = Some (GoInt 5), WaitResponse = False, Entity = ''''\<rparr>,
          MsgType = ''msg_check'', Destination = '''', Timestamp = ''''\<rparr>
   \<and> decode_Message
     (encode_Message
        \<lparr>Data = [CHR 0xFF],
         Context = \<lparr>Tags = [], Limit = None, WaitResponse = False, Entity = ''''\<rparr>,
         MsgType = ''publish'', Destination = '''', Timestamp = ''''\<rparr>)
   = Inr \<lparr>Data = [CHR 0xEF, CHR 0xBF, CHR 0xBD],
          Context = \<lparr>Tags = [], Limit = None, WaitResponse = False, Entity = ''''\<rparr>,
          MsgType = ''publish'', Destination = '''', Timestamp = ''''\<rparr>
   \<and> decode_Message
     (encode_Message
        \<lparr>Data = [CHR 0xFF],
         Context = \<lparr>Tags = [], Limit = None, WaitResponse = False, Entity = ''''\<rparr>,
         MsgType = ''publish'', Destination = '''', Timestamp = ''''\<rparr>)
   \<noteq> Inr \<lparr>Data = [CHR 0xFF],
          Context = \<lparr>Tags = [], Limit = None, WaitResponse = False, Entity = ''''\<rparr>,
          MsgType = ''publish'', Destination = '''', Timestamp = ''''\<rparr>"
  by (simp add: decode_Message_def encode_Message_def encode_MessageContext_def
        omitempty_string_def zero_Message_def zero_MessageContext_def replacement_def
        cont_def second_ok_def)

text \<open>
  What the agent decodes is valid UTF-8 and has no limit, so a message that the agent has
  read, from a connection or from upstream, does come back equal in every field.
\<close>

lemma decode_string_valid:
  "decode_string f v cur = Inr s \<Longrightarrow> utf8_ValidString cur \<Longrightarrow> utf8_ValidString s"
  by (cases v) (auto simp: valid_to_valid_utf8)

lemma decode_array_valid:
  "decode_array (decode_string f) [] vs arr = Inr ss \<Longrightarrow> list_all utf8_ValidString arr \<Longrightarrow>
   list_all utf8_ValidString ss"
proof (induction vs arbitrary: arr ss)
  case Nil
  then show ?case by simp
next
  case (Cons v vs)
  from Cons.prems(1) obtain s ss' where
    s: "decode_string f v (case arr of [] \<Rightarrow> [] | x # xs \<Rightarrow> x) = Inr s"
    and r: "decode_array (decode_string f) [] vs (tl arr) = Inr ss'" and e: "ss = s # ss'"
    by (auto split: sum.splits)
  have "utf8_ValidString (case arr of [] \<Rightarrow> [] | x # xs \<Rightarrow> x)"
    using Cons.prems(2) by (cases arr) simp_all
  with s have "utf8_ValidString s" by (rule decode_string_valid)
  moreover have "list_all utf8_ValidString (tl arr)"
    using Cons.prems(2) by (cases arr) simp_all
  with r have "list_all utf8_ValidString ss'" by (rule Cons.IH)
  ultimately show ?case using e by simp
qed

lemma list_all_drop: "list_all P xs \<Longrightarrow> list_all P (drop n xs)"
  by (metis append_take_drop_id list_all_append)

lemma decode_tags_valid:
  assumes "decode_slice f (decode_string f) [] v (cur, behind) = Inr (t, behind')"
    and "list_all utf8_ValidString cur" and "list_all utf8_ValidString behind"
  shows "list_all utf8_ValidString t \<and> list_all utf8_ValidString behind'"
proof (cases v)
  case (JArray vs)
  show ?thesis
  proof (cases "vs = []")
    case True
    with assms JArray show ?thesis by simp
  next
    case False
    with assms(1) JArray have d: "decode_array (decode_string f) [] vs (cur @ behind) = Inr t"
      and b: "behind' = drop (length vs) (cur @ behind)"
      by (auto split: sum.splits)
    have a: "list_all utf8_ValidString (cur @ behind)" using assms(2,3) by simp
    from d a have "list_all utf8_ValidString t" by (rule decode_array_valid)
    moreover have "list_all utf8_ValidString behind'"
      unfolding b using a by (rule list_all_drop)
    ultimately show ?thesis by simp
  qed
qed (use assms in auto)

lemma decode_context_members_valid:
  assumes "decode_context_members kvs (c, b) = Inr (c', b')"
    and "list_all utf8_ValidString (Tags c)" and "utf8_ValidString (Entity c)"
    and "list_all utf8_ValidString b"
  shows "list_all utf8_ValidString (Tags c') \<and> utf8_ValidString (Entity c')
         \<and> list_all utf8_ValidString b'"
  using assms
proof (induction kvs arbitrary: c b)
  case Nil
  then show ?case by simp
next
  case (Cons kv kvs)
  obtain k v where kv: "kv = (k, v)" by (cases kv)
  show ?case
  proof (cases "key_is ''tags'' k")
    case True
    with Cons.prems(1) kv obtain t b1 where
      d: "decode_slice ''tags'' (decode_string ''tags'') [] v (Tags c, b) = Inr (t, b1)"
      and r: "decode_context_members kvs (c\<lparr>Tags := t\<rparr>, b1) = Inr (c', b')"
      by (auto split: sum.splits)
    from decode_tags_valid [OF d Cons.prems(2) Cons.prems(4)]
    show ?thesis using Cons.IH [OF r] Cons.prems(3) by simp
  next
    case nt: False
    show ?thesis
    proof (cases "key_is ''wait'' k")
      case True
      with Cons.prems(1) kv nt obtain w where
        r: "decode_context_members kvs (c\<lparr>WaitResponse := w\<rparr>, b) = Inr (c', b')"
        by (auto split: sum.splits)
      show ?thesis using Cons.IH [OF r] Cons.prems(2,3,4) by simp
    next
      case nw: False
      show ?thesis
      proof (cases "key_is ''entity'' k")
        case True
        with Cons.prems(1) kv nt nw obtain s where
          d: "decode_string ''entity'' v (Entity c) = Inr s"
          and r: "decode_context_members kvs (c\<lparr>Entity := s\<rparr>, b) = Inr (c', b')"
          by (auto split: sum.splits)
        from decode_string_valid [OF d Cons.prems(3)]
        show ?thesis using Cons.IH [OF r] Cons.prems(2,4) by simp
      next
        case False
        with Cons.prems(1) kv nt nw have
          r: "decode_context_members kvs (c, b) = Inr (c', b')" by simp
        show ?thesis using Cons.IH [OF r] Cons.prems(2,3,4) by simp
      qed
    qed
  qed
qed

lemma decode_MessageContext_valid:
  assumes "decode_MessageContext v (c, b) = Inr (c', b')"
    and "list_all utf8_ValidString (Tags c)" and "utf8_ValidString (Entity c)"
    and "list_all utf8_ValidString b"
  shows "list_all utf8_ValidString (Tags c') \<and> utf8_ValidString (Entity c')
         \<and> list_all utf8_ValidString b'"
proof (cases v)
  case (JObject kvs)
  with assms(1) have "decode_context_members kvs (c, b) = Inr (c', b')" by simp
  from decode_context_members_valid [OF this assms(2,3,4)] show ?thesis .
qed (use assms in auto)

lemma decode_message_members_valid:
  assumes "decode_message_members kvs (m, b) = Inr (m', b')"
    and "valid_Message m" and "list_all utf8_ValidString b"
  shows "valid_Message m' \<and> list_all utf8_ValidString b'"
  using assms
proof (induction kvs arbitrary: m b)
  case Nil
  then show ?case by simp
next
  case (Cons kv kvs)
  obtain k v where kv: "kv = (k, v)" by (cases kv)
  have step: "valid_Message m' \<and> list_all utf8_ValidString b'"
    if "decode_message_members kvs (m1, b1) = Inr (m', b')" and "valid_Message m1"
      and "list_all utf8_ValidString b1" for m1 b1
    using that by (rule Cons.IH)
  have str: "utf8_ValidString s"
    if "decode_string f v cur = Inr s" and "utf8_ValidString cur" for f cur s
    using that by (rule decode_string_valid)
  consider (k_data) "key_is ''data'' k"
    | (k_context) "\<not> key_is ''data'' k" "key_is ''context'' k"
    | (k_msg_type) "\<not> key_is ''data'' k" "\<not> key_is ''context'' k" "key_is ''msg_type'' k"
    | (k_dest) "\<not> key_is ''data'' k" "\<not> key_is ''context'' k" "\<not> key_is ''msg_type'' k"
        "key_is ''dest'' k"
    | (k_timestamp) "\<not> key_is ''data'' k" "\<not> key_is ''context'' k" "\<not> key_is ''msg_type'' k"
        "\<not> key_is ''dest'' k" "key_is ''timestamp'' k"
    | (k_other) "\<not> key_is ''data'' k" "\<not> key_is ''context'' k" "\<not> key_is ''msg_type'' k"
        "\<not> key_is ''dest'' k" "\<not> key_is ''timestamp'' k"
    by blast
  then show ?case
  proof cases
    case k_data
    with Cons.prems(1) kv obtain s where d: "decode_string ''data'' v (Data m) = Inr s"
      and r: "decode_message_members kvs (m\<lparr>Data := s\<rparr>, b) = Inr (m', b')"
      by (auto split: sum.splits)
    have "utf8_ValidString s" using d Cons.prems(2) by (auto intro: str simp: valid_Message_def)
    then have "valid_Message (m\<lparr>Data := s\<rparr>)" using Cons.prems(2) by (simp add: valid_Message_def)
    with r show ?thesis using Cons.prems(3) by (rule step)
  next
    case k_context
    with Cons.prems(1) kv obtain c b1 where
      d: "decode_MessageContext v (Context m, b) = Inr (c, b1)"
      and r: "decode_message_members kvs (m\<lparr>Context := c\<rparr>, b1) = Inr (m', b')"
      by (auto split: sum.splits)
    have "list_all utf8_ValidString (Tags c) \<and> utf8_ValidString (Entity c)
          \<and> list_all utf8_ValidString b1"
      using d Cons.prems(2,3) by (intro decode_MessageContext_valid) (auto simp: valid_Message_def)
    then have "valid_Message (m\<lparr>Context := c\<rparr>)" and "list_all utf8_ValidString b1"
      using Cons.prems(2) by (simp_all add: valid_Message_def)
    with r show ?thesis by (rule step)
  next
    case k_msg_type
    with Cons.prems(1) kv obtain s where d: "decode_string ''msg_type'' v (MsgType m) = Inr s"
      and r: "decode_message_members kvs (m\<lparr>MsgType := s\<rparr>, b) = Inr (m', b')"
      by (auto split: sum.splits)
    have "utf8_ValidString s" using d Cons.prems(2) by (auto intro: str simp: valid_Message_def)
    then have "valid_Message (m\<lparr>MsgType := s\<rparr>)"
      using Cons.prems(2) by (simp add: valid_Message_def)
    with r show ?thesis using Cons.prems(3) by (rule step)
  next
    case k_dest
    with Cons.prems(1) kv obtain s where d: "decode_string ''dest'' v (Destination m) = Inr s"
      and r: "decode_message_members kvs (m\<lparr>Destination := s\<rparr>, b) = Inr (m', b')"
      by (auto split: sum.splits)
    have "utf8_ValidString s" using d Cons.prems(2) by (auto intro: str simp: valid_Message_def)
    then have "valid_Message (m\<lparr>Destination := s\<rparr>)"
      using Cons.prems(2) by (simp add: valid_Message_def)
    with r show ?thesis using Cons.prems(3) by (rule step)
  next
    case k_timestamp
    with Cons.prems(1) kv obtain s where d: "decode_string ''timestamp'' v (Timestamp m) = Inr s"
      and r: "decode_message_members kvs (m\<lparr>Timestamp := s\<rparr>, b) = Inr (m', b')"
      by (auto split: sum.splits)
    have "utf8_ValidString s" using d Cons.prems(2) by (auto intro: str simp: valid_Message_def)
    then have "valid_Message (m\<lparr>Timestamp := s\<rparr>)"
      using Cons.prems(2) by (simp add: valid_Message_def)
    with r show ?thesis using Cons.prems(3) by (rule step)
  next
    case k_other
    with Cons.prems(1) kv have "decode_message_members kvs (m, b) = Inr (m', b')" by simp
    then show ?thesis using Cons.prems(2,3) by (rule step)
  qed
qed

lemma valid_zero_Message: "valid_Message zero_Message"
  by (simp add: valid_Message_def zero_Message_def zero_MessageContext_def)

lemma decode_Message_into_valid:
  assumes "decode_Message_into j (m, b) = Inr (m', b')"
    and "valid_Message m" and "list_all utf8_ValidString b"
  shows "valid_Message m' \<and> list_all utf8_ValidString b'"
proof (cases j)
  case (JObject kvs)
  with assms(1) have "decode_message_members kvs (m, b) = Inr (m', b')" by simp
  from decode_message_members_valid [OF this assms(2,3)] show ?thesis .
qed (use assms in auto)

lemma decode_Message_valid: "decode_Message j = Inr m \<Longrightarrow> valid_Message m"
proof -
  assume "decode_Message j = Inr m"
  then obtain b where "decode_Message_into j (zero_Message, []) = Inr (m, b)"
    by (cases "decode_Message_into j (zero_Message, [])") (auto simp: decode_Message_def)
  from decode_Message_into_valid [OF this valid_zero_Message] show ?thesis by simp
qed

lemma roundtrip_decoded:
  assumes "decode_Message j = Inr m" and "Limit (Context m) = None"
  shows "decode_Message (encode_Message m) = Inr m"
proof -
  have "valid_Message m" using assms(1) by (rule decode_Message_valid)
  moreover have "m\<lparr>Context := (Context m)\<lparr>Limit := None\<rparr>\<rparr> = m"
    using assms(2) by (cases m, cases "Context m") simp
  ultimately show ?thesis using roundtrip_valid [of m] by simp
qed

section \<open>Dispatch by message type\<close>

lemma ProcessMessage_other_type:
  "MsgType msg \<noteq> ''msg_check'' \<Longrightarrow> MsgType msg \<noteq> ''publish'' \<Longrightarrow>
   ProcessMessage cfg up msg s = sendErrorResponse ''Unknown message type'' s"
  by (simp add: ProcessMessage_def)

lemma error_envelope:
  "ascii e \<Longrightarrow> e \<noteq> [] \<Longrightarrow>
   encode_ResponseMessage \<lparr>Status = ''error'', Message = e\<rparr> =
     JObject [(''status'', JString ''error''), (''message'', JString e)]"
  by (simp add: encode_ResponseMessage_def omitempty_string_def to_valid_utf8_ascii)

lemma JString_ascii: "ascii s \<Longrightarrow> JString (to_valid_utf8 s) = JString s"
  by (simp add: to_valid_utf8_ascii)

text \<open>
  Claim C1 does not hold of the code. The \<open>switch\<close> of \<open>ProcessMessage\<close> has the cases
  \<open>msg_check\<close> and \<open>publish\<close> only, so a \<open>dest_publish\<close> message falls to the default:
  the handler answers with the error envelope \<open>Unknown message type\<close> and the queue gets
  nothing.
\<close>

theorem dest_publish_rejected:
  "HandleConnection cfg up
     [Value (JObject [(''msg_type'', JString ''dest_publish''), (''data'', JString ''hello''),
                      (''dest'', JString ''d1'')])]
     new_handler
   = new_handler
       \<lparr>written :=
          [Marshal (JObject [(''status'', JString ''error''),
                             (''message'', JString ''Unknown message type'')])]\<rparr>"
  by (simp add: decode_Message_def key_is_ascii ascii_def fold_code_def JString_ascii
        to_valid_utf8_ascii zero_Message_def zero_MessageContext_def
        ValidateClientContext_def ProcessMessage_def sendErrorResponse_def conn_Write_def
        error_envelope new_handler_def)

text \<open>
  The decoder never fills \<open>Limit\<close>, whatever the incoming object holds.
\<close>

lemma decode_context_members_Limit:
  "decode_context_members kvs (c, b) = Inr (c', b') \<Longrightarrow> Limit c' = Limit c"
  by (induction kvs arbitrary: c b) (auto split: if_splits sum.splits)

lemma decode_MessageContext_Limit:
  "decode_MessageContext j (c, b) = Inr (c', b') \<Longrightarrow> Limit c' = Limit c"
  by (cases j) (auto dest: decode_context_members_Limit)

lemma decode_message_members_Limit:
  "decode_message_members kvs (m, b) = Inr (m', b') \<Longrightarrow> Limit (Context m') = Limit (Context m)"
proof (induction kvs arbitrary: m b)
  case Nil
  then show ?case by simp
next
  case (Cons kv kvs)
  obtain k v where kv: "kv = (k, v)" by (cases kv)
  show ?case
  proof (cases "\<not> key_is ''data'' k \<and> key_is ''context'' k")
    case True
    with Cons.prems kv obtain c b1 where
      d: "decode_MessageContext v (Context m, b) = Inr (c, b1)"
      and r: "decode_message_members kvs (m\<lparr>Context := c\<rparr>, b1) = Inr (m', b')"
      by (auto split: sum.splits)
    from Cons.IH [OF r] decode_MessageContext_Limit [OF d] show ?thesis by simp
  next
    case False
    with Cons.prems kv show ?thesis
      by (auto split: if_splits sum.splits dest: Cons.IH)
  qed
qed

lemma decode_Message_Limit: "decode_Message j = Inr m \<Longrightarrow> Limit (Context m) = None"
proof -
  assume "decode_Message j = Inr m"
  then obtain b where d: "decode_Message_into j (zero_Message, []) = Inr (m, b)"
    by (cases "decode_Message_into j (zero_Message, [])") (auto simp: decode_Message_def)
  then show ?thesis
    by (cases j)
       (auto dest: decode_message_members_Limit simp: zero_Message_def zero_MessageContext_def)
qed

text \<open>
  So a message that the agent has decoded comes back equal from encoding and decoding.
\<close>

lemma roundtrip_received:
  "decode_Message j = Inr m \<Longrightarrow> decode_Message (encode_Message m) = Inr m"
  by (rule roundtrip_decoded) (auto dest: decode_Message_Limit)

text \<open>
  On a \<open>Message\<close> value whose \<open>Limit\<close> is set the dispatch does read it: only a value of
  dynamic type \<open>int\<close> passes the type assertion.
\<close>

lemma ProcessMessage_msg_check:
  "ProcessMessage cfg up (msg\<lparr>MsgType := ''msg_check''\<rparr>) s =
     (case Limit (Context msg) of
        None \<Rightarrow> poll_and_reply cfg up 1 s
      | Some (GoInt limit) \<Rightarrow> poll_and_reply cfg up limit s
      | Some _ \<Rightarrow> sendErrorResponse ''Invalid limit type'' s)"
  by (simp add: ProcessMessage_def)

text \<open>
  So every \<open>msg_check\<close> that arrives on a connection is answered by a poll with limit 1.
\<close>

lemma msg_check_polls_one:
  assumes "decode_Message j = Inr msg" and "MsgType msg = ''msg_check''"
    and "length (Tags (Context msg)) \<le> 10"
  shows "HandleConnection cfg up [Value j] s = poll_and_reply cfg up 1 s"
  using assms decode_Message_Limit [OF assms(1)]
  by (simp add: ValidateClientContext_def ProcessMessage_def)

text \<open>
  Claim C2 does not hold of the handler. A client that sends \<open>msg_check\<close> with
  \<open>context.limit\<close> 5 gets a poll with limit 1: the one request the handler makes is that
  of \<open>checkMessage\<close> with limit 1, for every upstream. A limit that is not a number
  gets the same poll, and no error envelope.
\<close>

theorem wire_limit_ignored:
  "requests
     (HandleConnection cfg up
        [Value (JObject [(''msg_type'', JString ''msg_check''),
                         (''context'', JObject [(''limit'', JNumber 5)])])]
        new_handler)
   = [check_request cfg 1]
   \<and> requests
     (HandleConnection cfg up
        [Value (JObject [(''msg_type'', JString ''msg_check''),
                         (''context'', JObject [(''limit'', JString ''many'')])])]
        new_handler)
   = [check_request cfg 1]"
  by (simp add: decode_Message_def key_is_ascii ascii_def fold_code_def to_valid_utf8_ascii
        zero_Message_def zero_MessageContext_def
        ValidateClientContext_def ProcessMessage_def poll_and_reply_def checkMessage_def
        send_def sendErrorResponse_def conn_Write_def new_handler_def
        split: http_result.splits sum.splits)

section \<open>Rounding\<close>

text \<open>
  Facts about the rounding of exact results: the rounded value of a positive number lies
  between any two binary64 numbers that enclose the number, so a binary64 number rounds to
  itself and rounding is monotone across binary64 numbers.
\<close>

lemma pow2_pos: "0 < pow2 e"
  by (simp add: pow2_def)

lemma pow2_powi: "pow2 e = 2 powi e"
  by (simp add: pow2_def power_int_def inverse_eq_divide power_one_over)

lemma pow2_add: "pow2 (a + b) = pow2 a * pow2 b"
  by (simp add: pow2_powi power_int_add)

lemma pow2_mono: "a \<le> b \<Longrightarrow> pow2 a \<le> pow2 b"
  by (simp add: pow2_powi power_int_increasing)

lemma pow2_diff: "pow2 (a - b) = pow2 a / pow2 b"
  by (simp add: pow2_powi power_int_diff)

lemma bitlen_pow2_bounds:
  assumes "0 < p"
  shows "pow2 (bitlen p - 1) \<le> of_int p" and "of_int p < pow2 (bitlen p)"
proof -
  have b: "2 ^ nat (bitlen p - 1) \<le> p" "p < 2 ^ nat (bitlen p)"
    using bitlen_bounds [OF assms] by auto
  have pos: "0 < bitlen p"
    using assms bitlen_eq_zero_iff [of p] bitlen_nonneg [of p] by (cases "bitlen p = 0") auto
  have "pow2 (bitlen p - 1) = of_int (2 ^ nat (bitlen p - 1))"
    using pos by (simp add: pow2_def)
  also have "\<dots> \<le> of_int p" using b(1) by (simp only: of_int_le_iff)
  finally show "pow2 (bitlen p - 1) \<le> of_int p" .
  have "(of_int p :: rat) < of_int (2 ^ nat (bitlen p))" using b(2) by (simp only: of_int_less_iff)
  also have "\<dots> = pow2 (bitlen p)" using pos by (simp add: pow2_def)
  finally show "of_int p < pow2 (bitlen p)" .
qed

lemma ilog2_bounds:
  assumes "0 < a"
  shows "pow2 (ilog2 a) \<le> a \<and> a < pow2 (ilog2 a + 1)"
proof -
  obtain p q where pq: "quotient_of a = (p, q)" by (cases "quotient_of a")
  have q: "0 < q" using pq by (rule quotient_of_denom_pos)
  have a: "a = of_int p / of_int q" using pq by (rule quotient_of_div)
  have p: "0 < p" using assms q a by (simp add: zero_less_divide_iff)
  define d where "d = bitlen p - bitlen q"
  have qr: "(0::rat) < of_int q" using q by simp
  have lo: "pow2 (d - 1) \<le> a"
  proof -
    have "pow2 (d - 1) = pow2 (bitlen p - 1) / pow2 (bitlen q)"
      by (simp add: d_def pow2_diff [symmetric] algebra_simps)
    also have "\<dots> \<le> of_int p / pow2 (bitlen q)"
      using bitlen_pow2_bounds(1) [OF p] pow2_pos [of "bitlen q"] by (simp add: divide_right_mono)
    also have "\<dots> \<le> of_int p / of_int q"
      using bitlen_pow2_bounds(2) [OF q] p qr by (simp add: frac_le)
    finally show ?thesis by (simp add: a)
  qed
  have hi: "a < pow2 (d + 1)"
  proof -
    have "a < pow2 (bitlen p) / of_int q"
      using bitlen_pow2_bounds(2) [OF p] qr by (simp add: a divide_strict_right_mono)
    also have "\<dots> \<le> pow2 (bitlen p) / pow2 (bitlen q - 1)"
      using bitlen_pow2_bounds(1) [OF q] pow2_pos [of "bitlen p"] pow2_pos [of "bitlen q - 1"]
      by (simp add: frac_le)
    also have "\<dots> = pow2 (d + 1)"
      by (simp add: d_def pow2_diff [symmetric] algebra_simps)
    finally show ?thesis .
  qed
  have il: "ilog2 a = (if pow2 d \<le> a then d else d - 1)"
    by (simp add: ilog2_def pq d_def Let_def)
  show ?thesis
  proof (cases "pow2 d \<le> a")
    case True
    then show ?thesis using hi by (simp add: il)
  next
    case False
    then show ?thesis using lo by (simp add: il)
  qed
qed

lemma ilog2_eqI:
  assumes "pow2 k \<le> a" and "a < pow2 (k + 1)"
  shows "ilog2 a = k"
proof -
  have "0 < a" using assms(1) pow2_pos [of k] by simp
  note b = ilog2_bounds [OF this]
  show ?thesis
  proof (rule ccontr)
    assume ne: "ilog2 a \<noteq> k"
    show False
    proof (cases "ilog2 a < k")
      case True
      then have "pow2 (ilog2 a + 1) \<le> pow2 k" by (simp add: pow2_mono)
      with b assms show False by simp
    next
      case False
      with ne have "pow2 (k + 1) \<le> pow2 (ilog2 a)" by (simp add: pow2_mono)
      with b assms show False by simp
    qed
  qed
qed

lemma round_half_even_le: "q \<le> of_int K \<Longrightarrow> round_half_even q \<le> K"
proof -
  assume h: "q \<le> of_int K"
  have f: "\<lfloor>q\<rfloor> \<le> K" using h by (simp add: floor_le_iff) 
  show ?thesis
  proof (cases "\<lfloor>q\<rfloor> = K")
    case True
    have "of_int \<lfloor>q\<rfloor> \<le> q" by simp
    with True h have "q = of_int K" by simp
    then show ?thesis by (simp add: round_half_even_def)
  next
    case False
    with f have "\<lfloor>q\<rfloor> + 1 \<le> K" by simp
    then show ?thesis by (simp add: round_half_even_def Let_def)
  qed
qed

lemma round_half_even_ge: "of_int K \<le> q \<Longrightarrow> K \<le> round_half_even q"
proof -
  assume "of_int K \<le> q"
  then have "K \<le> \<lfloor>q\<rfloor>" by (simp add: le_floor_iff)
  then show ?thesis by (simp add: round_half_even_def Let_def)
qed

lemma quantum_normal:
  assumes "0 < a" and "- 1074 < quantum a"
  shows "pow2 (quantum a + 52) \<le> a"
proof -
  from assms(2) have "quantum a = ilog2 a - 52" by (simp add: quantum_def max_def split: if_splits)
  then show ?thesis using ilog2_bounds [OF assms(1)] by simp
qed

lemma scaled_int_back:
  assumes "e \<le> k"
  shows "of_int (m * 2 ^ nat (k - e)) * pow2 e = of_int m * pow2 k"
proof -
  have "pow2 k = pow2 ((k - e) + e)" by simp
  also have "\<dots> = pow2 (k - e) * pow2 e" by (simp only: pow2_add)
  also have "pow2 (k - e) = 2 ^ nat (k - e)" using assms by (simp add: pow2_def)
  finally show ?thesis by simp
qed

lemma scaled_int:
  assumes "e \<le> k"
  shows "of_int m * pow2 k / pow2 e = of_int (m * 2 ^ nat (k - e))"
  using pow2_pos [of e] by (simp add: scaled_int_back [OF assms, symmetric])

lemma below_normal:
  assumes "m < 2 ^ 53" and "k < e"
  shows "of_int m * pow2 k < pow2 (e + 52)"
proof -
  have "(of_int m :: rat) < of_int (2 ^ 53)" using assms(1) by (simp only: of_int_less_iff)
  then have "(of_int m :: rat) < pow2 53" by (simp add: pow2_def)
  then have "of_int m * pow2 k < pow2 53 * pow2 k" using pow2_pos [of k] by simp
  also have "\<dots> = pow2 (53 + k)" by (simp add: pow2_add)
  also have "\<dots> \<le> pow2 (e + 52)" using assms(2) by (simp add: pow2_mono)
  finally show ?thesis .
qed

lemma mantissa_normal:
  assumes "0 < a" and "- 1074 < quantum a"
  shows "2 ^ 52 \<le> round_half_even (a / pow2 (quantum a))"
proof -
  have "pow2 52 * pow2 (quantum a) \<le> a"
    using quantum_normal [OF assms] by (simp add: pow2_add mult.commute)
  then have "pow2 52 \<le> a / pow2 (quantum a)"
    using pow2_pos [of "quantum a"] by (simp add: pos_le_divide_eq)
  then have "of_int (2 ^ 52) \<le> a / pow2 (quantum a)" by (simp add: pow2_def)
  then show ?thesis by (rule round_half_even_ge)
qed

lemma round_upper:
  assumes a: "0 < a" and le: "a \<le> of_int m * pow2 k" and m: "m < 2 ^ 53" and k: "- 1074 \<le> k"
  shows "of_int (round_half_even (a / pow2 (quantum a))) * pow2 (quantum a) \<le> of_int m * pow2 k"
proof (cases "quantum a \<le> k")
  case True
  have "a / pow2 (quantum a) \<le> of_int m * pow2 k / pow2 (quantum a)"
    using le pow2_pos [of "quantum a"] by (simp add: divide_right_mono)
  then have "a / pow2 (quantum a) \<le> of_int (m * 2 ^ nat (k - quantum a))"
    by (simp only: scaled_int [OF True])
  then have "round_half_even (a / pow2 (quantum a)) \<le> m * 2 ^ nat (k - quantum a)"
    by (rule round_half_even_le)
  then have "(of_int (round_half_even (a / pow2 (quantum a))) :: rat) \<le> of_int (m * 2 ^ nat (k - quantum a))"
    by (simp only: of_int_le_iff)
  then have "of_int (round_half_even (a / pow2 (quantum a))) * pow2 (quantum a)
               \<le> of_int (m * 2 ^ nat (k - quantum a)) * pow2 (quantum a)"
    using pow2_pos [of "quantum a"] by (simp only: mult_le_cancel_right_pos)
  also have "\<dots> = of_int m * pow2 k"
    by (rule scaled_int_back [OF True])
  finally show ?thesis .
next
  case False
  then have lt: "k < quantum a" by simp
  with k have "- 1074 < quantum a" by simp
  from quantum_normal [OF a this] below_normal [OF m lt] le show ?thesis by simp
qed

lemma round_lower:
  assumes a: "0 < a" and le: "of_int m * pow2 k \<le> a" and m: "m < 2 ^ 53" and k: "- 1074 \<le> k"
  shows "of_int m * pow2 k \<le> of_int (round_half_even (a / pow2 (quantum a))) * pow2 (quantum a)"
proof (cases "quantum a \<le> k")
  case True
  have "of_int m * pow2 k / pow2 (quantum a) \<le> a / pow2 (quantum a)"
    using le pow2_pos [of "quantum a"] by (simp add: divide_right_mono)
  then have "of_int (m * 2 ^ nat (k - quantum a)) \<le> a / pow2 (quantum a)"
    by (simp only: scaled_int [OF True])
  then have "m * 2 ^ nat (k - quantum a) \<le> round_half_even (a / pow2 (quantum a))"
    by (rule round_half_even_ge)
  then have "(of_int (m * 2 ^ nat (k - quantum a)) :: rat) \<le> of_int (round_half_even (a / pow2 (quantum a)))"
    by (simp only: of_int_le_iff)
  then have "of_int (m * 2 ^ nat (k - quantum a)) * pow2 (quantum a)
               \<le> of_int (round_half_even (a / pow2 (quantum a))) * pow2 (quantum a)"
    using pow2_pos [of "quantum a"] by (simp only: mult_le_cancel_right_pos)
  then show ?thesis
    by (simp only: scaled_int_back [OF True])
next
  case False
  then have lt: "k < quantum a" by simp
  with k have n: "- 1074 < quantum a" by simp
  have "(of_int (2 ^ 52) :: rat) \<le> of_int (round_half_even (a / pow2 (quantum a)))"
    using mantissa_normal [OF a n] by (simp only: of_int_le_iff)
  then have "pow2 52 \<le> of_int (round_half_even (a / pow2 (quantum a)))"
    by (simp add: pow2_def)
  then have "pow2 52 * pow2 (quantum a)
               \<le> of_int (round_half_even (a / pow2 (quantum a))) * pow2 (quantum a)"
    using pow2_pos [of "quantum a"] by (simp only: mult_le_cancel_right_pos)
  then have "pow2 (quantum a + 52) \<le> of_int (round_half_even (a / pow2 (quantum a))) * pow2 (quantum a)"
    by (simp add: pow2_add mult.commute)
  with below_normal [OF m lt] show ?thesis by simp
qed

lemma below_pow2_1024:
  assumes "m < 2 ^ 53" and "k \<le> 971"
  shows "of_int m * pow2 k < pow2 1024"
proof -
  have "k < k + 1" by simp
  from below_normal [OF assms(1) this] have "of_int m * pow2 k < pow2 (k + 53)"
    by (simp add: add.commute add.left_commute)
  also have "\<dots> \<le> pow2 1024" using assms(2) by (simp add: pow2_mono)
  finally show ?thesis .
qed

lemma rnd_pos:
  assumes "0 < x"
  shows "rnd x =
     (if 971 < quantum x \<or> (quantum x = 971 \<and> 2 ^ 53 \<le> round_half_even (x / pow2 (quantum x)))
      then PInf
      else Num (of_int (round_half_even (x / pow2 (quantum x))) * pow2 (quantum x)))"
proof -
  have "\<bar>x\<bar> = x" "\<not> x < 0" using assms by simp_all
  then show ?thesis
    unfolding rnd_def Let_def inf_signed_def zero_signed_def by auto
qed

lemma overflow_large:
  assumes x: "0 < x"
    and ov: "971 < quantum x \<or> (quantum x = 971 \<and> 2 ^ 53 \<le> round_half_even (x / pow2 (quantum x)))"
  shows "pow2 1024 \<le> of_int (round_half_even (x / pow2 (quantum x))) * pow2 (quantum x)"
proof -
  let ?n = "round_half_even (x / pow2 (quantum x))"
  from ov show ?thesis
  proof
    assume big: "971 < quantum x"
    then have "- 1074 < quantum x" by simp
    from mantissa_normal [OF x this] have "(of_int (2 ^ 52) :: rat) \<le> of_int ?n"
      by (simp only: of_int_le_iff)
    then have "pow2 52 \<le> of_int ?n" by (simp add: pow2_def)
    then have "pow2 52 * pow2 (quantum x) \<le> of_int ?n * pow2 (quantum x)"
      using pow2_pos [of "quantum x"] by (simp only: mult_le_cancel_right_pos)
    moreover have "pow2 1024 \<le> pow2 (52 + quantum x)" using big by (simp add: pow2_mono)
    ultimately show ?thesis by (simp add: pow2_add)
  next
    assume eq: "quantum x = 971 \<and> 2 ^ 53 \<le> ?n"
    then have "2 ^ 53 \<le> ?n" by blast
    then have "(of_int (2 ^ 53) :: rat) \<le> of_int ?n" by (simp only: of_int_le_iff)
    then have "pow2 53 \<le> of_int ?n" by (simp add: pow2_def)
    then have "pow2 53 * pow2 (quantum x) \<le> of_int ?n * pow2 (quantum x)"
      using pow2_pos [of "quantum x"] by (simp only: mult_le_cancel_right_pos)
    moreover have "pow2 53 * pow2 (quantum x) = pow2 1024"
      using eq by (simp add: pow2_add [symmetric])
    ultimately show ?thesis by simp
  qed
qed

lemma rnd_between:
  assumes x: "0 < x"
    and lo: "of_int ml * pow2 kl \<le> x" "ml < 2 ^ 53" "- 1074 \<le> kl"
    and hi: "x \<le> of_int mh * pow2 kh" "mh < 2 ^ 53" "- 1074 \<le> kh" "kh \<le> 971"
  shows "\<exists>v. rnd x = Num v \<and> of_int ml * pow2 kl \<le> v \<and> v \<le> of_int mh * pow2 kh"
proof -
  let ?n = "round_half_even (x / pow2 (quantum x))"
  have up: "of_int ?n * pow2 (quantum x) \<le> of_int mh * pow2 kh"
    using x hi(1) hi(2) hi(3) by (rule round_upper)
  have low: "of_int ml * pow2 kl \<le> of_int ?n * pow2 (quantum x)"
    using x lo(1) lo(2) lo(3) by (rule round_lower)
  have fin: "\<not> (971 < quantum x \<or> (quantum x = 971 \<and> 2 ^ 53 \<le> ?n))"
  proof
    assume "971 < quantum x \<or> (quantum x = 971 \<and> 2 ^ 53 \<le> ?n)"
    from overflow_large [OF x this] up below_pow2_1024 [OF hi(2) hi(4)] show False by simp
  qed
  have "rnd x = Num (of_int ?n * pow2 (quantum x))"
    using fin by (simp only: rnd_pos [OF x] if_False)
  with up low show ?thesis by blast
qed

lemma rnd_exact:
  assumes "0 < m" and "m < 2 ^ 53" and "- 1074 \<le> k" and "k \<le> 971"
  shows "rnd (of_int m * pow2 k) = Num (of_int m * pow2 k)"
proof -
  have "(0::rat) < of_int m * pow2 k" using assms(1) pow2_pos [of k] by simp
  from rnd_between [OF this order_refl assms(2) assms(3) order_refl assms(2) assms(3) assms(4)]
  show ?thesis by auto
qed

lemma rnd_normal:
  assumes lo: "pow2 (e + 52) \<le> x" and hi: "x < pow2 (e + 53)" and e: "- 1074 \<le> e" "e < 971"
  shows "rnd x = Num (of_int (round_half_even (x / pow2 e)) * pow2 e)"
proof -
  have x: "0 < x" using lo pow2_pos [of "e + 52"] by simp
  have "ilog2 x = e + 52" using lo hi by (intro ilog2_eqI) (simp_all add: add.commute add.left_commute)
  then have q: "quantum x = e" using e by (simp add: quantum_def)
  show ?thesis using e by (simp add: rnd_pos [OF x] q)
qed

lemma rnd_int:
  assumes "0 < n" and "n \<le> 2 ^ 53"
  shows "rnd (of_int n) = Num (of_int n)"
proof (cases "n = 2 ^ 53")
  case True
  have "rnd (of_int (2 ^ 52) * pow2 1) = Num (of_int (2 ^ 52) * pow2 1)"
    by (rule rnd_exact) simp_all
  then show ?thesis using True by (simp add: pow2_def)
next
  case False
  with assms have "n < 2 ^ 53" by simp
  from rnd_exact [OF assms(1) this, of 0] show ?thesis by (simp add: pow2_def)
qed

lemma f64_of_int_exact: "0 \<le> n \<Longrightarrow> n \<le> 2 ^ 53 \<Longrightarrow> f64_of_int n = Num (of_int n)"
  by (cases "n = 0") (simp_all add: f64_of_int_def rnd_int)

lemma lit_int: "0 \<le> n \<Longrightarrow> n \<le> 2 ^ 53 \<Longrightarrow> lit (of_int n) = Num (of_int n)"
  by (cases "n = 0") (simp_all add: lit_def rnd_int)

lemma lit_1: "lit 1 = Num 1"
  using lit_int [of 1] by simp

lemma lit_0: "lit 0 = Num 0"
  by (simp add: lit_def)

lemma lit_50: "lit 50 = Num 50"
  using lit_int [of 50] by simp

lemma lit_100: "lit 100 = Num 100"
  using lit_int [of 100] by simp

lemma round_half_even_eqI:
  assumes "of_int n - 1 / 2 < q" and "q < of_int n + 1 / 2"
  shows "round_half_even q = n"
proof (cases "of_int n \<le> q")
  case True
  with assms have "\<lfloor>q\<rfloor> = n" by (intro floor_unique) simp_all
  with assms show ?thesis by (simp add: round_half_even_def Let_def)
next
  case False
  with assms have "\<lfloor>q\<rfloor> = n - 1" by (intro floor_unique) simp_all
  with assms show ?thesis by (simp add: round_half_even_def Let_def)
qed

lemma round_half_even_tie:
  assumes "q = of_int n + 1 / 2"
  shows "round_half_even q = (if even n then n else n + 1)"
proof -
  have "\<lfloor>q\<rfloor> = n" using assms by (intro floor_unique) simp_all
  with assms show ?thesis by (simp add: round_half_even_def Let_def)
qed

lemma lit_two_fifths: "lit (2 / 5) = Num (7205759403792794 / 2 ^ 54)"
proof -
  have "round_half_even (2 / 5 / pow2 (- 54)) = 7205759403792794"
    by (rule round_half_even_eqI) (simp_all add: pow2_def)
  with rnd_normal [of "- 54" "2 / 5"] show ?thesis
    by (simp add: lit_def pow2_def)
qed

lemma lit_one_fifth: "lit (1 / 5) = Num (7205759403792794 / 2 ^ 55)"
proof -
  have "round_half_even (1 / 5 / pow2 (- 55)) = 7205759403792794"
    by (rule round_half_even_eqI) (simp_all add: pow2_def)
  with rnd_normal [of "- 55" "1 / 5"] show ?thesis
    by (simp add: lit_def pow2_def)
qed

section \<open>Validation of the tags\<close>

lemma decode_eleven_tags:
  "decode_Message eleven_tags =
     Inr (zero_Message
            \<lparr>MsgType := ''publish'',
             Context :=
               zero_MessageContext
                 \<lparr>Tags := [''a'', ''b'', ''c'', ''d'', ''e'', ''f'', ''g'', ''h'', ''i'', ''j'', ''k'']\<rparr>\<rparr>)"
  by (simp add: eleven_tags_def decode_Message_def zero_Message_def zero_MessageContext_def)

lemma eleven_tags_length:
  "11 \<le> length (Tags (Context (zero_Message
            \<lparr>MsgType := ''publish'',
             Context :=
               zero_MessageContext
                 \<lparr>Tags := [''a'', ''b'', ''c'', ''d'', ''e'', ''f'', ''g'', ''h'', ''i'', ''j'', ''k'']\<rparr>\<rparr>)))"
  by simp

lemma decode_publish_x:
  "decode_Message publish_x = Inr (zero_Message\<lparr>MsgType := ''publish'', Data := ''x''\<rparr>)"
  by (simp add: publish_x_def decode_Message_def zero_Message_def zero_MessageContext_def)

text \<open>
  Claim C8, as the code has it. An incoming object that decodes to a message with eleven
  tags or more makes the handler write the error envelope with the text
  \<open>too many tags provided; maximum is 10\<close>; the message is not enqueued, no request is
  made, the connection stays open and the loop goes on with the rest of the stream.
\<close>

theorem too_many_tags_rejected:
  assumes "decode_Message j = Inr msg" and "11 \<le> length (Tags (Context msg))"
  shows "HandleConnection cfg up (Value j # rest) s =
           HandleConnection cfg up rest
             (s\<lparr>written := written s @
                  [Marshal (JObject [(''status'', JString ''error''),
                      (''message'', JString ''too many tags provided; maximum is 10'')])]\<rparr>)
         \<and> enqueued (HandleConnection cfg up [Value j] s) = enqueued s
         \<and> requests (HandleConnection cfg up [Value j] s) = requests s
         \<and> conn_closed (HandleConnection cfg up [Value j] s) = conn_closed s
         \<and> spinning (HandleConnection cfg up [Value j] s) = spinning s"
proof -
  have "encode_ResponseMessage
          \<lparr>Status = ''error'', Message = ''too many tags provided; maximum is 10''\<rparr> =
        JObject [(''status'', JString ''error''),
                 (''message'', JString ''too many tags provided; maximum is 10'')]"
    by (rule error_envelope) (simp_all add: ascii_def)
  then show ?thesis
    using assms by (simp add: ValidateClientContext_def sendErrorResponse_def conn_Write_def)
qed

text \<open>
  Claim C8 at a concrete stream: a publish with eleven tags followed by a good publish.
  The first is answered with the envelope, the second is enqueued, the connection is open.
\<close>

theorem too_many_tags_rejected_witness:
  "written (HandleConnection (default_Config ''key'') (always (Response 204 (Inl ''EOF''))) [Value eleven_tags, Value publish_x] new_handler) =
     [Marshal (JObject [(''status'', JString ''error''),
        (''message'', JString ''too many tags provided; maximum is 10'')])]
   \<and> enqueued (HandleConnection (default_Config ''key'') (always (Response 204 (Inl ''EOF''))) [Value eleven_tags, Value publish_x] new_handler) =
       [zero_Message\<lparr>MsgType := ''publish'', Data := ''x''\<rparr>]
   \<and> enqueued (HandleConnection (default_Config ''key'') (always (Response 204 (Inl ''EOF''))) [Value eleven_tags] new_handler) = []
   \<and> \<not> conn_closed (HandleConnection (default_Config ''key'') (always (Response 204 (Inl ''EOF''))) [Value eleven_tags] new_handler)
   \<and> \<not> spinning (HandleConnection (default_Config ''key'') (always (Response 204 (Inl ''EOF''))) [Value eleven_tags] new_handler)"
  using too_many_tags_rejected [OF decode_eleven_tags eleven_tags_length,
      of "default_Config ''key''" "always (Response 204 (Inl ''EOF''))" "[Value publish_x]"
        new_handler]
  by (simp add: decode_publish_x zero_Message_def zero_MessageContext_def
        ValidateClientContext_def ProcessMessage_def new_handler_def)

text \<open>
  Claim C8 as stated fails at an object with eleven tags whose \<open>data\<close> is an object and
  not a string. The object does not decode into a \<open>Message\<close>; the handler prints the
  error and goes on to the next value: nothing is written on the connection.
\<close>

theorem too_many_tags_counterexample:
  "decode_Message eleven_tags_object_data = Inl (UnmarshalTypeError ''data'')
   \<and> written (HandleConnection (default_Config ''key'') (always (Response 204 (Inl ''EOF'')))
        [Value eleven_tags_object_data] new_handler) = []"
  by (simp add: eleven_tags_object_data_def decode_Message_def zero_Message_def
        zero_MessageContext_def new_handler_def)

text \<open>
  An error of the decoder that is not a type error does not go away: after it the handler
  reads nothing more, whatever follows on the stream.
\<close>

lemma HandleConnection_Malformed:
  "HandleConnection cfg up (Malformed e # rest) s = s\<lparr>spinning := True\<rparr>"
  by simp

section \<open>Polling\<close>

lemma decode_response_messages:
  "decode_response (JObject [(''messages'', JArray vs)]) = decode_messages vs"
  by (cases "decode_array decode_Message_into (zero_Message, []) vs []")
     (auto simp: decode_messages_def)

lemma status_envelope:
  "encode_ResponseMessage
     \<lparr>Status = ''error'', Message = ''unexpected status code: '' @ show_int code\<rparr> =
   JObject [(''status'', JString ''error''),
            (''message'', JString (''unexpected status code: '' @ show_int code))]"
proof (rule error_envelope)
  have "ascii ''unexpected status code: ''" by (simp add: ascii_def)
  then show "ascii (''unexpected status code: '' @ show_int code)"
    using ascii_show_int [of code] by (simp only: ascii_append)
qed simp

lemmas status_envelope_cons = status_envelope [simplified]

lemma decode_messages_one:
  "decode_Message j = Inr m \<Longrightarrow> decode_messages [j] = Inr [m]"
  by (cases "decode_Message_into j (zero_Message, [])")
     (auto simp: decode_messages_def decode_Message_def)

text \<open>
  Claim C7, as the code has it. For every limit, \<open>checkMessage\<close> makes one request and
  \<^item> on status 204 returns the empty list, and the handler writes the three bytes \<open>204\<close>;
  \<^item> on status 200 with a body \<open>{"messages": [...]}\<close> whose elements decode returns the
    decoded sequence, and the handler writes it JSON-encoded when it is not empty and
    writes the three bytes \<open>204\<close> when it is empty;
  \<^item> on every other status \<open>n\<close> fails with \<open>unexpected status code: n\<close>, which the
    handler writes as an error envelope.
\<close>

theorem poll_by_status:
  "(do up (length (requests s)) (check_request cfg limit) = Response 204 b \<longrightarrow>
      checkMessage cfg up limit s =
        (Inr [], s\<lparr>requests := requests s @ [check_request cfg limit]\<rparr>)
      \<and> poll_and_reply cfg up limit s =
          s\<lparr>requests := requests s @ [check_request cfg limit],
            written := written s @ [Raw ''204'']\<rparr>)
   \<and> (do up (length (requests s)) (check_request cfg limit) =
         Response 200 (Inr (JObject [(''messages'', JArray vs)]))
       \<and> decode_messages vs = Inr ms \<longrightarrow>
      checkMessage cfg up limit s =
        (Inr ms, s\<lparr>requests := requests s @ [check_request cfg limit]\<rparr>)
      \<and> poll_and_reply cfg up limit s =
          s\<lparr>requests := requests s @ [check_request cfg limit],
            written := written s @
              [if ms = [] then Raw ''204'' else Marshal (JArray (map encode_Message ms))]\<rparr>)
   \<and> (do up (length (requests s)) (check_request cfg limit) = Response code b
       \<and> code \<noteq> 204 \<and> code \<noteq> 200 \<longrightarrow>
      checkMessage cfg up limit s =
        (Inl (''unexpected status code: '' @ show_int code),
         s\<lparr>requests := requests s @ [check_request cfg limit]\<rparr>)
      \<and> poll_and_reply cfg up limit s =
          s\<lparr>requests := requests s @ [check_request cfg limit],
            written := written s @
              [Marshal (JObject [(''status'', JString ''error''),
                 (''message'', JString (''unexpected status code: '' @ show_int code))])]\<rparr>)"
  by (auto simp: checkMessage_def poll_and_reply_def send_def conn_Write_def
        sendErrorResponse_def status_envelope_cons decode_response_messages
        simp del: decode_response.simps split: if_splits)

text \<open>
  Claim C7 at three upstreams: one that answers 204, one that answers 200 with one message,
  one that answers 404.
\<close>

theorem poll_by_status_witness:
  "written (poll_and_reply (default_Config ''key'') (always (Response 204 (Inl ''EOF''))) 3 new_handler) = [Raw ''204'']
   \<and> written (poll_and_reply (default_Config ''key'')
        (always (Response 200 (Inr (JObject [(''messages'', JArray [publish_x])])))) 3 new_handler)
      = [Marshal (JArray [encode_Message (zero_Message\<lparr>MsgType := ''publish'', Data := ''x''\<rparr>)])]
   \<and> written (poll_and_reply (default_Config ''key'') (always (Response 404 (Inl ''EOF''))) 3 new_handler)
      = [Marshal (JObject [(''status'', JString ''error''),
           (''message'', JString ''unexpected status code: 404'')])]"
proof -
  have r204:
    "poll_and_reply (default_Config ''key'') (always (Response 204 (Inl ''EOF''))) 3 new_handler =
       new_handler\<lparr>requests := requests new_handler @ [check_request (default_Config ''key'') 3],
                   written := written new_handler @ [Raw ''204'']\<rparr>"
    using poll_by_status [of "always (Response 204 (Inl ''EOF''))" new_handler "default_Config ''key''" 3
        "Inl ''EOF''" "[]" "[]" 204]
    by (simp add: always_def)
  have r200:
    "poll_and_reply (default_Config ''key'')
       (always (Response 200 (Inr (JObject [(''messages'', JArray [publish_x])])))) 3 new_handler =
       new_handler\<lparr>requests := requests new_handler @ [check_request (default_Config ''key'') 3],
                   written := written new_handler @
                     [Marshal (JArray (map encode_Message
                        [zero_Message\<lparr>MsgType := ''publish'', Data := ''x''\<rparr>]))]\<rparr>"
    using poll_by_status [of "always (Response 200 (Inr (JObject [(''messages'', JArray [publish_x])])))"
        new_handler "default_Config ''key''" 3 "Inl ''EOF''" "[publish_x]"
        "[zero_Message\<lparr>MsgType := ''publish'', Data := ''x''\<rparr>]" 204]
    by (simp add: always_def decode_publish_x decode_messages_one)
  have r404:
    "poll_and_reply (default_Config ''key'') (always (Response 404 (Inl ''EOF''))) 3 new_handler =
       new_handler\<lparr>requests := requests new_handler @ [check_request (default_Config ''key'') 3],
                   written := written new_handler @
                     [Marshal (JObject [(''status'', JString ''error''),
                        (''message'', JString (''unexpected status code: '' @ show_int 404))])]\<rparr>"
    using poll_by_status [of "always (Response 404 (Inl ''EOF''))" new_handler "default_Config ''key''" 3
        "Inl ''EOF''" "[]" "[]" 404]
    by (simp add: always_def)
  have sh: "show_int 404 = ''404''" by (simp add: show_int_def show_nat.simps)
  have nh: "written new_handler = []" by (simp add: new_handler_def)
  show ?thesis
    by (simp add: r204 r200 r404 nh sh)
qed

text \<open>
  Claim C7 as stated fails where the upstream answers 200 with an empty sequence: the poll
  returns the empty list, and the handler writes the bytes \<open>204\<close>, not the JSON encoding
  of the sequence.
\<close>

theorem poll_by_status_counterexample:
  "fst (checkMessage (default_Config ''key'')
          (always (Response 200 (Inr (JObject [(''messages'', JArray [])])))) 1 new_handler)
     = Inr []
   \<and> written (poll_and_reply (default_Config ''key'')
        (always (Response 200 (Inr (JObject [(''messages'', JArray [])])))) 1 new_handler)
      = [Raw ''204'']
   \<and> written (poll_and_reply (default_Config ''key'')
        (always (Response 200 (Inr (JObject [(''messages'', JArray [])])))) 1 new_handler)
      \<noteq> [Marshal (JArray (map encode_Message []))]"
  by (simp add: checkMessage_def poll_and_reply_def send_def conn_Write_def always_def
        new_handler_def decode_response_messages decode_messages_def
        del: decode_response.simps)

section \<open>The batch size\<close>

text \<open>
  Claim C5. Whatever the metrics are and whatever the conversion to \<open>int\<close> gives, the
  batch size lies between \<open>min_batch_size\<close> and \<open>max_batch_size\<close> when the first is not
  above the second: the two comparisons at the end of \<open>calculateDynamicBatchSize\<close> see
  to it.
\<close>

theorem batch_size_in_range:
  "MinBatchSize cfg \<le> MaxBatchSize cfg \<Longrightarrow>
   MinBatchSize cfg \<le> calculateDynamicBatchSize impl cfg metrics
   \<and> calculateDynamicBatchSize impl cfg metrics \<le> MaxBatchSize cfg"
  by (simp add: calculateDynamicBatchSize_def Let_def)

text \<open>
  Claim C5 at the default configuration, with a CPU at 35 percent, memory at 20 percent
  and the queue at 10 percent.
\<close>

theorem batch_size_in_range_witness:
  "MinBatchSize (default_Config ''key'') \<le> MaxBatchSize (default_Config ''key'')
   \<and> 10 \<le> calculateDynamicBatchSize amd64 (default_Config ''key'')
             \<lparr>CPUUsage = Num 35, MemoryUsage = Num 20, QueueLoad = Num 10\<rparr>
   \<and> calculateDynamicBatchSize amd64 (default_Config ''key'')
             \<lparr>CPUUsage = Num 35, MemoryUsage = Num 20, QueueLoad = Num 10\<rparr> \<le> 200"
  using batch_size_in_range [of "default_Config ''key''" amd64
          "\<lparr>CPUUsage = Num 35, MemoryUsage = Num 20, QueueLoad = Num 10\<rparr>"]
  by (simp add: default_Config_def)

lemma calculate_ge_min:
  "MinBatchSize cfg \<le> MaxBatchSize cfg \<Longrightarrow>
   MinBatchSize cfg \<le> calculateDynamicBatchSize impl cfg metrics"
  by (simp add: calculateDynamicBatchSize_def Let_def)

subsection \<open>An idle host\<close>

lemma fdiv_zero_target:
  assumes "\<not> is_zero t" and "t \<noteq> NaN"
  shows "fdiv (Num 0) t = Num 0 \<or> fdiv (Num 0) t = NegZero"
  using assms by (cases t) (auto simp: fdiv_def zero_signed_def)

lemma rnd_1: "rnd 1 = Num 1"
  using rnd_int [of 1] by simp

lemma one_minus_zero:
  assumes "z = Num 0 \<or> z = NegZero"
  shows "fsub (lit 1) z = Num 1"
  using assms by (auto simp: fsub_def fadd_def lit_1 rnd_1)

lemma idle_factor:
  assumes "\<not> is_zero t" and "t \<noteq> NaN"
  shows "math_Max (lit 0) (fsub (lit 1) (fdiv (Num 0) t)) = Num 1"
  using one_minus_zero [OF fdiv_zero_target [OF assms]]
  by (simp add: math_Max_def lit_0)

lemma idle_queue_factor: "math_Min (lit 1) (fdiv (Num 0) (lit 50)) = Num 0"
  by (simp add: lit_50 lit_1 fdiv_def zero_signed_def math_Min_def)

lemma two_fifths_exact:
  "rnd (7205759403792794 / 2 ^ 54) = Num (7205759403792794 / 2 ^ 54)"
  using rnd_exact [of 7205759403792794 "- 54"] by (simp add: pow2_def)

lemma four_fifths_exact:
  "rnd (7205759403792794 / 2 ^ 53) = Num (7205759403792794 / 2 ^ 53)"
  using rnd_exact [of 7205759403792794 "- 53"] by (simp add: pow2_def)

lemma idle_resourceFactor:
  assumes "CPUUsage m = Num 0" and "MemoryUsage m = Num 0" and "QueueLoad m = Num 0"
    and "\<not> is_zero (TargetCPUPercent cfg)" and "TargetCPUPercent cfg \<noteq> NaN"
    and "\<not> is_zero (TargetMemPercent cfg)" and "TargetMemPercent cfg \<noteq> NaN"
  shows "resourceFactor cfg m = Num (7205759403792794 / 2 ^ 53)"
proof -
  have a: "fmul (Num 1) (lit (2 / 5)) = Num (7205759403792794 / 2 ^ 54)"
    using two_fifths_exact by (simp add: fmul_def lit_two_fifths)
  have b: "fmul (Num 0) (lit (1 / 5)) = Num 0"
    by (simp add: fmul_def lit_one_fifth zero_signed_def)
  have c: "fadd (Num (7205759403792794 / 2 ^ 54)) (Num (7205759403792794 / 2 ^ 54))
             = Num (7205759403792794 / 2 ^ 53)"
    using four_fifths_exact by (simp add: fadd_def)
  have d: "fadd (Num (7205759403792794 / 2 ^ 53)) (Num 0) = Num (7205759403792794 / 2 ^ 53)"
    using four_fifths_exact by (simp add: fadd_def)
  show ?thesis
    unfolding resourceFactor_def Let_def assms(1,2,3)
    by (simp only: idle_factor [OF assms(4,5)] idle_factor [OF assms(6,7)] idle_queue_factor a b c d)
qed

lemma trunc_zero_nonneg: "0 \<le> r \<Longrightarrow> trunc_zero r = \<lfloor>r\<rfloor>"
  by (simp add: trunc_zero_def)

lemma div5_bounds:
  fixes M :: int
  shows "5 * ((4 * M) div 5) \<le> 4 * M" and "4 * M \<le> 5 * ((4 * M) div 5) + 4"
proof -
  have dm: "4 * M = 5 * ((4 * M) div 5) + (4 * M) mod 5" by simp
  have "0 \<le> (4 * M) mod 5" "(4 * M) mod 5 < 5" by simp_all
  with dm show "5 * ((4 * M) div 5) \<le> 4 * M" and "4 * M \<le> 5 * ((4 * M) div 5) + 4"
    by linarith+
qed

lemma four_fifths_product:
  assumes "0 < M" and "M \<le> 2 ^ 50"
  shows "of_int ((4 * M) div 5) * pow2 0 \<le> of_int M * (7205759403792794 / 2 ^ 53 :: rat)"
    and "of_int M * (7205759403792794 / 2 ^ 53 :: rat) \<le> of_int (8 * ((4 * M) div 5) + 7) * pow2 (- 3)"
proof -
  define K where "K = (4 * M) div 5"
  have k1: "5 * K \<le> 4 * M" and k2: "4 * M \<le> 5 * K + 4"
    unfolding K_def by (rule div5_bounds)+
  have "(of_int (5 * K) :: rat) \<le> of_int (4 * M)" using k1 by (simp only: of_int_le_iff)
  then have r1: "5 * (of_int K :: rat) \<le> 4 * of_int M" by simp
  have "(of_int (4 * M) :: rat) \<le> of_int (5 * K + 4)" using k2 by (simp only: of_int_le_iff)
  then have r2: "4 * (of_int M :: rat) \<le> 5 * of_int K + 4" by simp
  have "(of_int M :: rat) \<le> of_int (2 ^ 50)" using assms(2) by (simp only: of_int_le_iff)
  then have r3: "(of_int M :: rat) \<le> 1125899906842624" by simp
  have r4: "(0 :: rat) < of_int M" using assms(1) by simp
  have p0: "pow2 0 = 1" and p3: "pow2 (- 3) = 1 / 8" by (simp_all add: pow2_def)
  have e: "of_int M * (7205759403792794 / 2 ^ 53 :: rat)
             = (4 * of_int M) / 5 + of_int M / 22517998136852480"
    by simp
  show "of_int ((4 * M) div 5) * pow2 0 \<le> of_int M * (7205759403792794 / 2 ^ 53 :: rat)"
    unfolding K_def [symmetric] e p0 using r1 r4 by simp
  have "of_int M / (22517998136852480 :: rat) \<le> 1 / 20" using r3 by simp
  moreover have "(4 * of_int M) / 5 \<le> (of_int K :: rat) + 4 / 5" using r2 by simp
  ultimately have "(4 * of_int M) / 5 + of_int M / 22517998136852480 \<le> (of_int K :: rat) + 7 / 8"
    by linarith
  then show "of_int M * (7205759403792794 / 2 ^ 53 :: rat) \<le> of_int (8 * ((4 * M) div 5) + 7) * pow2 (- 3)"
    unfolding K_def [symmetric] e p3 by simp
qed

lemma idle_product:
  assumes "0 \<le> M" and "M \<le> 2 ^ 50"
  shows "int_of_f64 impl (fmul (f64_of_int M) (Num (7205759403792794 / 2 ^ 53))) = (4 * M) div 5"
proof (cases "M = 0")
  case True
  then show ?thesis
    by (simp add: f64_of_int_def fmul_def zero_signed_def trunc_zero_def is_int64_def)
next
  case False
  with assms have pos: "0 < M" by simp
  define K where "K = (4 * M) div 5"
  have k1: "5 * K \<le> 4 * M" and k2: "4 * M \<le> 5 * K + 4"
    unfolding K_def by (rule div5_bounds)+
  have M50: "M \<le> 1125899906842624" using assms(2) by simp
  have K0: "0 \<le> K" using k2 pos by linarith
  have M53: "M \<le> 2 ^ 53" using M50 by simp
  have x: "(0::rat) < of_int M * (7205759403792794 / 2 ^ 53)" using pos by simp
  have mh: "8 * K + 7 < 2 ^ 53" using k1 M50 by simp
  have ml: "K < 2 ^ 53" using k1 M50 by simp
  have k0: "- 1074 \<le> (0::int)" and k3: "- 1074 \<le> (- 3 :: int)" "(- 3 :: int) \<le> 971" by simp_all
  from rnd_between [OF x four_fifths_product(1) [OF pos assms(2)] _ k0
      four_fifths_product(2) [OF pos assms(2)] _ k3] ml mh
  obtain v where v: "rnd (of_int M * (7205759403792794 / 2 ^ 53)) = Num v"
    "of_int K * pow2 0 \<le> v" "v \<le> of_int (8 * K + 7) * pow2 (- 3)"
    unfolding K_def [symmetric] by blast
  have p0: "pow2 0 = 1" and p3: "pow2 (- 3) = 1 / 8" by (simp_all add: pow2_def)
  have v2: "of_int K \<le> v" using v(2) by (simp add: p0)
  have v3: "v < of_int K + 1" using v(3) by (simp add: p3)
  have fl: "\<lfloor>v\<rfloor> = K" using v2 v3 by (intro floor_unique) simp_all
  have "(0::rat) \<le> of_int K" using K0 by simp
  with v2 have v0: "0 \<le> v" by linarith
  have "fmul (f64_of_int M) (Num (7205759403792794 / 2 ^ 53)) = Num v"
    using pos v(1) by (simp add: f64_of_int_exact [OF assms(1) M53] fmul_def)
  moreover have "is_int64 K" using K0 k1 M50 by (simp add: is_int64_def)
  ultimately show ?thesis
    using fl v0 by (simp add: trunc_zero_nonneg K_def)
qed

lemma floor_four_fifths: "\<lfloor>of_int M * (4 / 5 :: rat)\<rfloor> = (4 * M) div 5"
proof -
  have "of_int M * (4 / 5 :: rat) = of_int (4 * M) / of_int 5" by simp
  then show ?thesis by (simp only: floor_divide_of_int_eq)
qed

text \<open>
  Claim C9, as the code has it. With the three metrics at zero the batch size is
  \<open>floor(max_batch_size * 0.8)\<close> in every configuration in which that value lies in
  \<open>[min_batch_size, max_batch_size]\<close>, provided that neither target percentage is zero
  or NaN and that \<open>max_batch_size\<close> is between 0 and \<open>2^50\<close>. The sum
  \<open>1*0.4 + 1*0.4 + 0*0.2\<close> is the binary64 number next to 0.8, a little above it, and
  the product with \<open>max_batch_size\<close> is rounded before its fraction is dropped.
\<close>

theorem idle_batch_size:
  assumes "CPUUsage m = Num 0" and "MemoryUsage m = Num 0" and "QueueLoad m = Num 0"
    and "\<not> is_zero (TargetCPUPercent cfg)" and "TargetCPUPercent cfg \<noteq> NaN"
    and "\<not> is_zero (TargetMemPercent cfg)" and "TargetMemPercent cfg \<noteq> NaN"
    and "0 \<le> MaxBatchSize cfg" and "MaxBatchSize cfg \<le> 2 ^ 50"
    and "MinBatchSize cfg \<le> \<lfloor>of_int (MaxBatchSize cfg) * (4 / 5 :: rat)\<rfloor>"
    and "\<lfloor>of_int (MaxBatchSize cfg) * (4 / 5 :: rat)\<rfloor> \<le> MaxBatchSize cfg"
  shows "calculateDynamicBatchSize impl cfg m = \<lfloor>of_int (MaxBatchSize cfg) * (4 / 5 :: rat)\<rfloor>"
  using assms(10,11)
  unfolding calculateDynamicBatchSize_def idle_resourceFactor [OF assms(1-7)]
    idle_product [OF assms(8,9)] floor_four_fifths Let_def
  by simp

text \<open>
  With a target of zero the division \<open>0 / 0\<close> is NaN, and NaN goes through
  \<open>math.Max\<close> and the weighted sum into the conversion.
\<close>

lemma fmul_NaN [simp]: "fmul NaN y = NaN" "fmul x NaN = NaN"
  by (simp_all add: fmul_def)

lemma fadd_NaN [simp]: "fadd NaN y = NaN" "fadd x NaN = NaN"
  by (simp_all add: fadd_def)

lemma fsub_NaN [simp]: "fsub x NaN = NaN"
  by (simp add: fsub_def)

lemma math_Max_NaN: "x \<noteq> PInf \<Longrightarrow> math_Max x NaN = NaN"
  by (simp add: math_Max_def)

lemma zero_target_NaN:
  "CPUUsage m = Num 0 \<Longrightarrow> TargetCPUPercent cfg = Num 0 \<Longrightarrow> resourceFactor cfg m = NaN"
  by (simp add: resourceFactor_def Let_def fdiv_def lit_0 math_Max_NaN)

text \<open>
  Claim C9 as stated fails in the default configuration with \<open>-targetCPU=0\<close>, on
  \<open>amd64\<close>: \<open>floor(200 * 0.8) = 160\<close> lies between 10 and 200, and the batch size is
  not 160 (it is the minimum, 10).
\<close>

theorem idle_batch_size_counterexample:
  "MinBatchSize ((default_Config ''key'')\<lparr>TargetCPUPercent := Num 0\<rparr>)
      \<le> \<lfloor>of_int (MaxBatchSize ((default_Config ''key'')\<lparr>TargetCPUPercent := Num 0\<rparr>)) * (4 / 5 :: rat)\<rfloor>
   \<and> \<lfloor>of_int (MaxBatchSize ((default_Config ''key'')\<lparr>TargetCPUPercent := Num 0\<rparr>)) * (4 / 5 :: rat)\<rfloor>
      \<le> MaxBatchSize ((default_Config ''key'')\<lparr>TargetCPUPercent := Num 0\<rparr>)
   \<and> calculateDynamicBatchSize amd64 ((default_Config ''key'')\<lparr>TargetCPUPercent := Num 0\<rparr>)
         \<lparr>CPUUsage = Num 0, MemoryUsage = Num 0, QueueLoad = Num 0\<rparr>
       \<noteq> \<lfloor>of_int (MaxBatchSize ((default_Config ''key'')\<lparr>TargetCPUPercent := Num 0\<rparr>)) * (4 / 5 :: rat)\<rfloor>"
proof -
  have "resourceFactor ((default_Config ''key'')\<lparr>TargetCPUPercent := Num 0\<rparr>)
          \<lparr>CPUUsage = Num 0, MemoryUsage = Num 0, QueueLoad = Num 0\<rparr> = NaN"
    by (rule zero_target_NaN) simp_all
  then show ?thesis
    by (simp add: calculateDynamicBatchSize_def default_Config_def amd64_def)
qed

lemma lit_70: "lit 70 = Num 70" using lit_int [of 70] by simp
lemma lit_80: "lit 80 = Num 80" using lit_int [of 80] by simp

text \<open>
  Claim C9 at the default configuration: the batch size of an idle host is 160.
\<close>

theorem idle_batch_size_witness:
  "calculateDynamicBatchSize amd64 (default_Config ''key'')
      \<lparr>CPUUsage = Num 0, MemoryUsage = Num 0, QueueLoad = Num 0\<rparr> = 160"
  using idle_batch_size [of "\<lparr>CPUUsage = Num 0, MemoryUsage = Num 0, QueueLoad = Num 0\<rparr>"
      "default_Config ''key''" amd64]
  by (simp add: default_Config_def lit_70 lit_80)

section \<open>The flush interval\<close>

lemma rnd_below_int:
  assumes "0 < x" and "x \<le> of_int M" and "M \<le> 2 ^ 53"
  shows "\<exists>v. rnd x = Num v \<and> 0 \<le> v \<and> v \<le> of_int M"
proof -
  have lo: "of_int 0 * pow2 0 \<le> x" using assms(1) by simp
  have c: "(0::int) < 2 ^ 53" "- 1074 \<le> (0::int)" "(0::int) \<le> 971" "- 1074 \<le> (1::int)" "(1::int) \<le> 971"
    by simp_all
  show ?thesis
  proof (cases "M = 2 ^ 53")
    case True
    have hi: "x \<le> of_int (2 ^ 52) * pow2 1" using assms(2) True by (simp add: pow2_def)
    have "(2 ^ 52 :: int) < 2 ^ 53" by simp
    from rnd_between [OF assms(1) lo c(1) c(2) hi this c(4) c(5)] True show ?thesis
      by (auto simp: pow2_def)
  next
    case False
    with assms(3) have m: "M < 2 ^ 53" by simp
    have hi: "x \<le> of_int M * pow2 0" using assms(2) by (simp add: pow2_def)
    from rnd_between [OF assms(1) lo c(1) c(2) hi m c(2) c(3)] show ?thesis
      by (auto simp: pow2_def)
  qed
qed

lemma load_fraction:
  assumes "0 \<le> q" and "q \<le> 100"
  shows "\<exists>t. fdiv (Num q) (lit 100) = Num t \<and> 0 \<le> t \<and> t \<le> 1"
proof (cases "q = 0")
  case True
  then show ?thesis by (simp add: lit_100 fdiv_def zero_signed_def)
next
  case False
  with assms have pos: "0 < q / 100" by simp
  have "q / 100 \<le> of_int 1" using assms(2) by simp
  from rnd_below_int [OF pos this] obtain t where "rnd (q / 100) = Num t" "0 \<le> t" "t \<le> 1"
    by auto
  with False show ?thesis by (simp add: lit_100 fdiv_def)
qed

lemma load_complement:
  assumes "0 \<le> t" and "t \<le> 1"
  shows "\<exists>u. fsub (lit 1) (Num t) = Num u \<and> 0 \<le> u \<and> u \<le> 1"
proof (cases "t = 0")
  case True
  then show ?thesis using one_minus_zero [of "Num 0"] by simp
next
  case False
  show ?thesis
  proof (cases "t = 1")
    case True
    then show ?thesis by (simp add: fsub_def fadd_def lit_1 zero_signed_def)
  next
    case ne: False
    with assms have pos: "0 < 1 - t" by simp
    have "1 - t \<le> of_int 1" using assms(1) by simp
    from rnd_below_int [OF pos this] obtain u where "rnd (1 - t) = Num u" "0 \<le> u" "u \<le> 1"
      by auto
    with False ne show ?thesis by (simp add: fsub_def fadd_def lit_1)
  qed
qed

lemma scaled_interval:
  assumes "0 \<le> M" and "M \<le> 2 ^ 53" and "0 \<le> u" and "u \<le> 1"
  shows "\<exists>v. fmul (f64_of_int M) (Num u) = Num v \<and> 0 \<le> v \<and> v \<le> of_int M"
proof (cases "M = 0 \<or> u = 0")
  case True
  then show ?thesis using assms(1) assms(3)
    by (auto simp: f64_of_int_exact [OF assms(1,2)] fmul_def zero_signed_def)
next
  case False
  then have M: "0 < M" and u: "0 < u" using assms by simp_all
  have pos: "(0::rat) < of_int M * u" using M u by simp
  have "of_int M * u \<le> of_int M * 1" using M assms(4) by (intro mult_left_mono) simp_all
  then have "of_int M * u \<le> of_int M" by simp
  from rnd_below_int [OF pos this assms(2)] obtain v
    where "rnd (of_int M * u) = Num v" "0 \<le> v" "v \<le> of_int M" by auto
  with M u show ?thesis by (simp add: f64_of_int_exact [OF assms(1,2)] fmul_def)
qed

lemma is_int64_small: "0 \<le> n \<Longrightarrow> n \<le> 2 ^ 53 \<Longrightarrow> is_int64 n"
  by (simp add: is_int64_def)

lemma convert_interval:
  assumes "0 \<le> v" and "v \<le> of_int M" and "M \<le> 2 ^ 53"
  shows "0 \<le> int_of_f64 impl (Num v) \<and> int_of_f64 impl (Num v) \<le> M"
proof -
  have f0: "0 \<le> \<lfloor>v\<rfloor>" using assms(1) by simp
  have f1: "\<lfloor>v\<rfloor> \<le> M" using assms(2) by (simp add: floor_le_iff)
  have "\<lfloor>v\<rfloor> \<le> 2 ^ 53" using f1 assms(3) by (rule order_trans)
  with f0 have "is_int64 \<lfloor>v\<rfloor>" by (rule is_int64_small)
  with f0 f1 show ?thesis by (simp add: trunc_zero_nonneg [OF assms(1)])
qed

lemma flush_interval_ge_min: "MinBatchInterval cfg \<le> flush_interval impl cfg m"
  by (simp add: flush_interval_def Let_def)

text \<open>
  Claim C6, as the code has it. For a queue load between 0 and 100 and a configuration
  with \<open>min_batch_interval \<le> max_batch_interval\<close>, the interval computed on an ingress
  event lies between the two, provided that \<open>max_batch_interval\<close> is between 0 and
  \<open>2^53\<close> nanoseconds (some 104 days), the range in which its conversion to \<open>float64\<close>
  is exact.
\<close>

theorem flush_interval_in_range:
  assumes "QueueLoad m = Num q" and "0 \<le> q" and "q \<le> 100"
    and "MinBatchInterval cfg \<le> MaxBatchInterval cfg"
    and "0 \<le> MaxBatchInterval cfg" and "MaxBatchInterval cfg \<le> 2 ^ 53"
  shows "MinBatchInterval cfg \<le> flush_interval impl cfg m
         \<and> flush_interval impl cfg m \<le> MaxBatchInterval cfg"
proof -
  obtain t where t: "fdiv (Num q) (lit 100) = Num t" "0 \<le> t" "t \<le> 1"
    using load_fraction [OF assms(2,3)] by auto
  obtain u where u: "fsub (lit 1) (Num t) = Num u" "0 \<le> u" "u \<le> 1"
    using load_complement [OF t(2,3)] by auto
  obtain v where v: "fmul (f64_of_int (MaxBatchInterval cfg)) (Num u) = Num v"
    "0 \<le> v" "v \<le> of_int (MaxBatchInterval cfg)"
    using scaled_interval [OF assms(5,6) u(2,3)] by auto
  have "int_of_f64 impl (Num v) \<le> MaxBatchInterval cfg"
    using convert_interval [OF v(2,3) assms(6)] by simp
  then show ?thesis
    using assms(4) by (simp add: flush_interval_def Let_def assms(1) t(1) u(1) v(1))
qed

text \<open>
  Claim C6 at the default configuration and a queue load of 37 percent.
\<close>

theorem flush_interval_in_range_witness:
  "MinBatchInterval (default_Config ''key'')
      \<le> flush_interval amd64 (default_Config ''key'')
           \<lparr>CPUUsage = Num 35, MemoryUsage = Num 20, QueueLoad = Num 37\<rparr>
   \<and> flush_interval amd64 (default_Config ''key'')
           \<lparr>CPUUsage = Num 35, MemoryUsage = Num 20, QueueLoad = Num 37\<rparr>
      \<le> MaxBatchInterval (default_Config ''key'')"
  using flush_interval_in_range [of "\<lparr>CPUUsage = Num 35, MemoryUsage = Num 20, QueueLoad = Num 37\<rparr>"
      37 "default_Config ''key''" amd64]
  by (simp add: default_Config_def millisecond_def)

text \<open>
  Above \<open>2^53\<close> the conversion of \<open>max_batch_interval\<close> to \<open>float64\<close> can round up.
\<close>

lemma round_to_even_above_2_53: "f64_of_int 9007199254740995 = Num 9007199254740996"
proof -
  have "round_half_even (9007199254740995 / pow2 1) = (if even (4503599627370497 :: int) then 4503599627370497 else 4503599627370497 + 1)"
    by (rule round_half_even_tie) (simp add: pow2_def)
  then have "round_half_even (9007199254740995 / pow2 1) = 4503599627370498" by simp
  with rnd_normal [of 1 9007199254740995] show ?thesis
    by (simp add: f64_of_int_def pow2_def)
qed

lemma exact_above_2_53: "rnd 9007199254740996 = Num 9007199254740996"
  using rnd_exact [of 4503599627370498 1] by (simp add: pow2_def)

text \<open>
  Claim C6 as stated fails for \<open>-maxInterval=9007199254740995ns\<close> (that is \<open>2^53 + 3\<close>)
  and an empty queue: the interval is \<open>2^53 + 4\<close> nanoseconds, above the maximum.
\<close>

theorem flush_interval_counterexample:
  "MinBatchInterval ((default_Config ''key'')\<lparr>MaxBatchInterval := 9007199254740995\<rparr>)
     \<le> MaxBatchInterval ((default_Config ''key'')\<lparr>MaxBatchInterval := 9007199254740995\<rparr>)
   \<and> flush_interval amd64 ((default_Config ''key'')\<lparr>MaxBatchInterval := 9007199254740995\<rparr>)
        \<lparr>CPUUsage = Num 0, MemoryUsage = Num 0, QueueLoad = Num 0\<rparr>
     > MaxBatchInterval ((default_Config ''key'')\<lparr>MaxBatchInterval := 9007199254740995\<rparr>)"
proof -
  have a: "fdiv (Num 0) (lit 100) = Num 0" by (simp add: lit_100 fdiv_def zero_signed_def)
  have b: "fsub (lit 1) (Num 0) = Num 1" using one_minus_zero [of "Num 0"] by simp
  have c: "fmul (Num 9007199254740996) (Num 1) = Num 9007199254740996"
    using exact_above_2_53 by (simp add: fmul_def)
  show ?thesis
    by (simp add: flush_interval_def Let_def default_Config_def millisecond_def a b c
          round_to_even_above_2_53 trunc_zero_def is_int64_def)
qed

section \<open>The worker accounts for every message\<close>

lemma accounted_on_message:
  assumes "on_message impl cfg m c u w = Inr w'"
  shows "concat (flushed w') @ batch w' @ q = concat (flushed w) @ batch w @ m # q
         \<and> queue w' = queue w \<and> sent w' = sent w \<and> closed w' = closed w
         \<and> returned w' = returned w \<and> waiting w' = waiting w"
  using assms
  by (auto simp: on_message_def Let_def FlushBatch_def split: if_splits)

lemma posted_on_message:
  assumes "on_message impl cfg m c u w = Inr w'"
    and "posted w = map (batch_request cfg) (flushed w)"
  shows "posted w' = map (batch_request cfg) (flushed w')"
  using assms
  by (auto simp: on_message_def Let_def FlushBatch_def split: if_splits)

lemma accounted_on_tick:
  "concat (flushed (on_tick cfg w)) @ batch (on_tick cfg w) @ q = concat (flushed w) @ batch w @ q
   \<and> queue (on_tick cfg w) = queue w \<and> sent (on_tick cfg w) = sent w
   \<and> closed (on_tick cfg w) = closed w \<and> returned (on_tick cfg w) = returned w"
  by (simp add: on_tick_def FlushBatch_def)

lemma posted_on_tick:
  "posted w = map (batch_request cfg) (flushed w) \<Longrightarrow>
   posted (on_tick cfg w) = map (batch_request cfg) (flushed (on_tick cfg w))"
  by (simp add: on_tick_def FlushBatch_def)

lemma on_done_flushed:
  "flushed (on_done cfg w) =
     flushed w @ (if batch w @ queue w = [] then [] else [batch w @ queue w])"
  by (simp add: on_done_def Let_def FlushBatch_def)

lemma on_done_posted:
  "posted (on_done cfg w) =
     posted w @ (if batch w @ queue w = [] then [] else [batch_request cfg (batch w @ queue w)])"
  by (simp add: on_done_def Let_def FlushBatch_def)

lemma on_done_fields:
  "queue (on_done cfg w) = [] \<and> closed (on_done cfg w) \<and> ticker (on_done cfg w) = None
   \<and> returned (on_done cfg w) \<and> sent (on_done cfg w) = sent w
   \<and> batch (on_done cfg w) = batch w @ queue w"
  by (simp add: on_done_def Let_def FlushBatch_def)

lemma receive_fields:
  assumes "receive w = Some (m, w')"
  shows "\<exists>xs. sent w' = sent w @ xs \<and> m # queue w' = queue w @ xs"
    and "batch w' = batch w" and "flushed w' = flushed w" and "posted w' = posted w"
    and "closed w' = closed w" and "returned w' = returned w"
  using assms by (auto simp: receive_def split: list.splits)

lemma accounted_step:
  assumes "accounted cfg w" and "ProcessQueue_step impl cfg e w = Inr w'"
  shows "accounted cfg w'"
proof (cases "returned w")
  case True
  with assms show ?thesis
    by (cases e) (auto simp: accounted_def split: if_splits)
next
  case False
  note nr = this
  show ?thesis
  proof (cases e)
    case (Offer m)
    with assms nr show ?thesis by (auto simp: accounted_def split: if_splits)
  next
    case (Recv c u)
    show ?thesis
    proof (cases "receive w")
      case None
      with assms nr Recv show ?thesis by simp
    next
      case (Some mw)
      obtain m w1 where mw: "mw = (m, w1)" by (cases mw)
      with Some have r: "receive w = Some (m, w1)" by simp
      with assms(2) nr Recv have om: "on_message impl cfg m c u w1 = Inr w'" by simp
      from receive_fields(1) [OF r] obtain xs where
        xs: "sent w1 = sent w @ xs" "m # queue w1 = queue w @ xs" by blast
      from accounted_on_message [OF om, of "queue w1"] have
        a: "concat (flushed w') @ batch w' @ queue w1 = concat (flushed w1) @ batch w1 @ m # queue w1"
        and f: "queue w' = queue w1" "sent w' = sent w1" "closed w' = closed w1"
          "returned w' = returned w1"
        by simp_all
      have p: "posted w' = map (batch_request cfg) (flushed w')"
        using om assms(1) receive_fields(3,4) [OF r]
        by (intro posted_on_message [OF om]) (simp add: accounted_def)
      have "concat (flushed w') @ batch w' @ queue w' = sent w'"
        using a f xs receive_fields(2,3) [OF r] assms(1) nr
        by (simp add: accounted_def)
      then show ?thesis
        using p f receive_fields(5,6) [OF r] assms(1) nr by (simp add: accounted_def)
    qed
  next
    case Tick
    with assms nr accounted_on_tick [of cfg w "queue w"] posted_on_tick [of w cfg]
    show ?thesis by (auto simp: accounted_def)
  next
    case Done
    with assms nr on_done_fields [of cfg w] on_done_flushed [of cfg w] on_done_posted [of cfg w]
    show ?thesis by (auto simp: accounted_def split: if_splits)
  qed
qed

lemma accounted_run:
  "accounted cfg w \<Longrightarrow> ProcessQueue_run impl cfg es w = Inr w' \<Longrightarrow> accounted cfg w'"
  by (induction es arbitrary: w) (auto split: sum.splits dest: accounted_step)

lemma accounted_start: "ProcessQueue_start cfg = Inr w \<Longrightarrow> accounted cfg w"
  by (auto simp: ProcessQueue_start_def accounted_def split: if_splits)

lemma accounted_ProcessQueue: "ProcessQueue impl cfg es = Inr w \<Longrightarrow> accounted cfg w"
  by (auto simp: ProcessQueue_def split: sum.splits dest: accounted_start accounted_run)

lemma ProcessQueue_run_append:
  "ProcessQueue_run impl cfg (es @ es') w =
     (case ProcessQueue_run impl cfg es w of
        Inl p \<Rightarrow> Inl p
      | Inr w' \<Rightarrow> ProcessQueue_run impl cfg es' w')"
  by (induction es arbitrary: w) (auto split: sum.splits)

lemma ProcessQueue_append:
  "ProcessQueue impl cfg es = Inr w \<Longrightarrow>
   ProcessQueue impl cfg (es @ es') = ProcessQueue_run impl cfg es' w"
  by (auto simp: ProcessQueue_def ProcessQueue_run_append split: sum.splits)

text \<open>
  The worker by itself does what its \<open><-done\<close> case is written for. Take any history of
  sends, receives and ticks after which the worker is still running, in state \<open>w\<close>, with
  no handler waiting in a send. If the worker then takes the case \<open><-done\<close> and runs it to
  the end, it closes the queue, moves all that is left in it behind its buffer, calls
  \<open>FlushBatch\<close> once on the buffer when that is not empty, stops the ticker and returns;
  the batches posted, one after the other, are then the messages whose send completed.
\<close>

lemma worker_drains_at_done:
  assumes "ProcessQueue impl cfg es = Inr w" and "\<not> returned w" and "waiting w = []"
  shows "ProcessQueue impl cfg (es @ [Done]) = Inr (on_done cfg w)
         \<and> closed (on_done cfg w) \<and> queue (on_done cfg w) = [] \<and> ticker (on_done cfg w) = None
         \<and> returned (on_done cfg w)
         \<and> batch (on_done cfg w) = batch w @ queue w
         \<and> flushed (on_done cfg w) =
             flushed w @ (if batch w @ queue w = [] then [] else [batch w @ queue w])
         \<and> posted (on_done cfg w) = map (batch_request cfg) (flushed (on_done cfg w))
         \<and> sent (on_done cfg w) = sent w
         \<and> concat (flushed (on_done cfg w)) = sent w"
proof -
  have run: "ProcessQueue impl cfg (es @ [Done]) = Inr (on_done cfg w)"
    using assms by (simp add: ProcessQueue_append)
  have a: "accounted cfg w" using assms(1) by (rule accounted_ProcessQueue)
  with assms(2) have "concat (flushed w) @ batch w @ queue w = sent w"
    by (simp add: accounted_def)
  then have c: "concat (flushed (on_done cfg w)) = sent w"
    by (auto simp: on_done_flushed)
  have p: "posted (on_done cfg w) = map (batch_request cfg) (flushed (on_done cfg w))"
    using a by (simp add: accounted_def on_done_flushed on_done_posted)
  show ?thesis
    using run c p on_done_fields [of cfg w] on_done_flushed [of cfg w] by simp
qed

text \<open>
  With a handler waiting in a send, closing the queue makes that handler panic.
\<close>

lemma done_with_blocked_sender:
  assumes "ProcessQueue impl cfg es = Inr w" and "\<not> returned w" and "waiting w \<noteq> []"
  shows "ProcessQueue impl cfg (es @ [Done]) = Inl SendOnClosedChannel"
  using assms by (simp add: ProcessQueue_append)

text \<open>
  The sample history: with an empty queue the load is zero and the ticker is set to
  \<open>max_batch_interval\<close>; a buffer shorter than \<open>min_batch_size\<close> is not flushed on arrival.
\<close>

lemma empty_queue_load:
  assumes "0 < MaxQueueSize cfg" and "MaxQueueSize cfg \<le> 2 ^ 53"
  shows "QueueLoad (getSystemMetrics cfg c u 0) = Num 0"
proof -
  have z: "f64_of_int 0 = Num 0" by (simp add: f64_of_int_def)
  have "0 \<le> MaxQueueSize cfg" using assms(1) by simp
  from f64_of_int_exact [OF this assms(2)]
  have d: "fdiv (Num 0) (f64_of_int (MaxQueueSize cfg)) = Num 0"
    using assms(1) by (simp add: fdiv_def zero_signed_def)
  have m: "fmul (Num 0) (lit 100) = Num 0" by (simp add: lit_100 fmul_def zero_signed_def)
  have "QueueLoad (getSystemMetrics cfg c u 0) =
          fmul (fdiv (f64_of_int 0) (f64_of_int (MaxQueueSize cfg))) (lit 100)"
    by (simp add: getSystemMetrics_def)
  also have "\<dots> = Num 0" by (simp only: z d m)
  finally show ?thesis .
qed

lemma idle_flush_interval:
  assumes "QueueLoad m = Num 0" and "0 < MaxBatchInterval cfg" and "MaxBatchInterval cfg \<le> 2 ^ 53"
    and "MinBatchInterval cfg \<le> MaxBatchInterval cfg"
  shows "flush_interval impl cfg m = MaxBatchInterval cfg"
proof -
  have a: "fdiv (Num 0) (lit 100) = Num 0" by (simp add: lit_100 fdiv_def zero_signed_def)
  have b: "fsub (lit 1) (Num 0) = Num 1" using one_minus_zero [of "Num 0"] by simp
  have M: "0 \<le> MaxBatchInterval cfg" using assms(2) by simp
  have c: "fmul (f64_of_int (MaxBatchInterval cfg)) (Num 1) = Num (of_int (MaxBatchInterval cfg))"
    using assms(2) rnd_int [OF assms(2,3)]
    by (simp add: f64_of_int_exact [OF M assms(3)] fmul_def)
  have d: "int_of_f64 impl (Num (of_int (MaxBatchInterval cfg))) = MaxBatchInterval cfg"
    using is_int64_small [OF M assms(3)] M by (simp add: trunc_zero_def)
  show ?thesis
    unfolding flush_interval_def Let_def assms(1) a b c d using assms(4) by simp
qed

lemma on_message_keeps:
  assumes "0 < MinBatchInterval cfg" and "MinBatchSize cfg \<le> MaxBatchSize cfg"
    and "int (length (batch w)) + 1 < MinBatchSize cfg"
  shows "on_message impl cfg msg c u w =
           Inr (w\<lparr>batch := batch w @ [msg],
                  ticker := Some (flush_interval impl cfg
                                    (getSystemMetrics cfg c u (length (queue w))))\<rparr>)"
  using assms flush_interval_ge_min [of cfg impl "getSystemMetrics cfg c u (length (queue w))"]
    calculate_ge_min [OF assms(2), of impl "getSystemMetrics cfg c u (length (queue w))"]
  by (simp add: on_message_def Let_def)

lemma default_on_message:
  assumes "queue w = []" and "batch w = []"
  shows "on_message impl (default_Config ''key'') msg c u w =
           Inr (w\<lparr>batch := [msg], ticker := Some (1000 * millisecond)\<rparr>)"
proof -
  let ?cfg = "default_Config ''key''"
  have q: "QueueLoad (getSystemMetrics ?cfg c u 0) = Num 0"
    by (rule empty_queue_load) (simp_all add: default_Config_def)
  have i: "flush_interval impl ?cfg (getSystemMetrics ?cfg c u 0) = MaxBatchInterval ?cfg"
    using q by (rule idle_flush_interval) (simp_all add: default_Config_def millisecond_def)
  have "on_message impl ?cfg msg c u w =
          Inr (w\<lparr>batch := batch w @ [msg],
                 ticker := Some (flush_interval impl ?cfg
                                   (getSystemMetrics ?cfg c u (length (queue w))))\<rparr>)"
    by (rule on_message_keeps) (simp_all add: default_Config_def millisecond_def assms)
  then show ?thesis by (simp add: assms i) (simp add: default_Config_def)
qed

lemma history_run: "ProcessQueue impl (default_Config ''key'') history = Inr before_done"
  by (simp add: ProcessQueue_def ProcessQueue_start_def history_def before_done_def receive_def
        default_on_message on_tick_def FlushBatch_def)
     (simp add: default_Config_def millisecond_def)

lemma before_done_running: "\<not> returned before_done"
  by (simp add: before_done_def)

text \<open>
  At the sample history three messages are sent, the first is flushed by a tick, and when
  the worker takes the case \<open><-done\<close> the second is in the buffer and the third in the
  queue. The final flush carries both.
\<close>

lemma sample_history_drained:
  "ProcessQueue amd64 (default_Config ''key'') (history @ [Done]) =
     Inr (on_done (default_Config ''key'') before_done)
   \<and> flushed (on_done (default_Config ''key'') before_done) = [[msg_a], [msg_b, msg_c]]
   \<and> posted (on_done (default_Config ''key'') before_done) =
       [batch_request (default_Config ''key'') [msg_a],
        batch_request (default_Config ''key'') [msg_b, msg_c]]"
proof -
  have "flushed before_done = [[msg_a]]" "batch before_done = [msg_b]"
    "queue before_done = [msg_c]" "waiting before_done = []"
    by (simp_all add: before_done_def)
  with worker_drains_at_done [OF history_run before_done_running, of amd64]
  show ?thesis by simp
qed

section \<open>Shutdown\<close>

lemma main_run_exited: "exited p \<Longrightarrow> main_run impl cfg as p = Inr p"
proof (induction as)
  case Nil
  show ?case by simp
next
  case (Cons a as)
  have "main_step impl cfg a p = Inr p"
  proof (cases a)
    case (Egress e)
    with Cons.prems show ?thesis by (cases e) simp_all
  qed (use Cons.prems in simp_all)
  with Cons show ?case by simp
qed

lemma main_run_append:
  "main_run impl cfg (as @ bs) p =
     (case main_run impl cfg as p of
        Inl x \<Rightarrow> Inl x
      | Inr p' \<Rightarrow> main_run impl cfg bs p')"
  by (induction as arbitrary: p) (auto split: sum.splits)

text \<open>
  Once \<open>main\<close> has returned nothing more is posted: what is in the queue and in the
  buffer of the worker at that moment is lost, whatever the goroutines were about to do.
\<close>

lemma nothing_after_exit:
  assumes "main impl cfg as = Inr p" and "exited p"
  shows "main impl cfg (as @ bs) = Inr p"
  using assms by (auto simp: main_def main_run_append main_run_exited split: sum.splits)

text \<open>
  When the worker is scheduled first, with the messages of the sample history, the final
  flush does happen before the end of the process.
\<close>

lemma shutdown_worker_first:
  "main amd64 (default_Config ''key'')
     [Egress (Offer msg_a), Egress (Recv None None), Signal, Egress Done, AcceptError] =
   Inr \<lparr>egress =
          \<lparr>batch = [msg_a], ticker = None, flushed = [[msg_a]],
           posted = [batch_request (default_Config ''key'') [msg_a]], queue = [],
           waiting = [], closed = True, returned = True, sent = [msg_a]\<rparr>,
        done_closed = True, exited = True\<rparr>"
proof -
  have s: "ProcessQueue_start (default_Config ''key'') =
        Inr \<lparr>batch = [], ticker = Some (100 * millisecond), flushed = [], posted = [],
              queue = [], waiting = [], closed = False, returned = False, sent = []\<rparr>"
    by (simp add: ProcessQueue_start_def default_Config_def millisecond_def)
  have q: "0 < MaxQueueSize (default_Config ''key'')" by (simp add: default_Config_def)
  show ?thesis
    using q
    by (simp add: main_def main_start_def s egress_step_def receive_def default_on_message
          on_done_def FlushBatch_def)
qed

text \<open>
  Claim C3 does not hold of the program. The worker has the case the claim describes, but
  \<open>main\<close> returns as soon as \<open>Accept\<close> fails after the signal, without waiting for the
  worker, and the return of \<open>main\<close> ends the process. In the first run below a handler
  sends one message and the worker receives it into its buffer, where it waits for the
  ticker; the signal arrives; \<open>Accept\<close> fails and \<open>main\<close> returns. The message was
  sent and is in no POST, and (second run) no later step changes that. In the third run
  the queue has room for one message and a second handler waits in its send when the
  worker closes the queue: the send panics.
\<close>

theorem shutdown_loses_queued_message:
  "main amd64 (default_Config ''key'')
     [Egress (Offer msg_a), Egress (Recv None None), Signal, AcceptError] =
     Inr \<lparr>egress =
            \<lparr>batch = [msg_a], ticker = Some (1000 * millisecond), flushed = [], posted = [],
             queue = [], waiting = [], closed = False, returned = False, sent = [msg_a]\<rparr>,
          done_closed = True, exited = True\<rparr>
   \<and> main amd64 (default_Config ''key'')
       [Egress (Offer msg_a), Egress (Recv None None), Signal, AcceptError, Egress Done,
        Egress Tick] =
     Inr \<lparr>egress =
            \<lparr>batch = [msg_a], ticker = Some (1000 * millisecond), flushed = [], posted = [],
             queue = [], waiting = [], closed = False, returned = False, sent = [msg_a]\<rparr>,
          done_closed = True, exited = True\<rparr>
   \<and> main amd64 ((default_Config ''key'')\<lparr>MaxQueueSize := 1\<rparr>)
       [Egress (Offer msg_a), Egress (Offer msg_b), Signal, Egress Done] =
     Inl SendOnClosedChannel"
proof -
  have s: "ProcessQueue_start (default_Config ''key'') =
        Inr \<lparr>batch = [], ticker = Some (100 * millisecond), flushed = [], posted = [],
              queue = [], waiting = [], closed = False, returned = False, sent = []\<rparr>"
    by (simp add: ProcessQueue_start_def default_Config_def millisecond_def)
  have q: "0 < MaxQueueSize (default_Config ''key'')" by (simp add: default_Config_def)
  have a: "main amd64 (default_Config ''key'')
             [Egress (Offer msg_a), Egress (Recv None None), Signal, AcceptError] =
           Inr \<lparr>egress =
                  \<lparr>batch = [msg_a], ticker = Some (1000 * millisecond), flushed = [],
                   posted = [], queue = [], waiting = [], closed = False, returned = False,
                   sent = [msg_a]\<rparr>,
                done_closed = True, exited = True\<rparr>"
    using q by (simp add: main_def main_start_def s egress_step_def receive_def default_on_message)
  have b: "main amd64 (default_Config ''key'')
             ([Egress (Offer msg_a), Egress (Recv None None), Signal, AcceptError]
              @ [Egress Done, Egress Tick]) =
           Inr \<lparr>egress =
                  \<lparr>batch = [msg_a], ticker = Some (1000 * millisecond), flushed = [],
                   posted = [], queue = [], waiting = [], closed = False, returned = False,
                   sent = [msg_a]\<rparr>,
                done_closed = True, exited = True\<rparr>"
    using a by (rule nothing_after_exit) simp
  have c: "main amd64 ((default_Config ''key'')\<lparr>MaxQueueSize := 1\<rparr>)
             [Egress (Offer msg_a), Egress (Offer msg_b), Signal, Egress Done] =
           Inl SendOnClosedChannel"
    by (simp add: main_def main_start_def ProcessQueue_start_def egress_step_def
          default_Config_def millisecond_def)
  from a b c show ?thesis by simp
qed

section \<open>Options that no operation reads\<close>

lemma unused_resourceFactor:
  "resourceFactor (cfg\<lparr>FlushInterval := a, BatchSize := b, ScaleFactor := c\<rparr>) m = resourceFactor cfg m"
  by (simp add: resourceFactor_def)

lemma unused_calculate:
  "calculateDynamicBatchSize impl (cfg\<lparr>FlushInterval := a, BatchSize := b, ScaleFactor := c\<rparr>) m
     = calculateDynamicBatchSize impl cfg m"
  by (simp add: calculateDynamicBatchSize_def unused_resourceFactor Let_def)

lemma unused_flush_interval:
  "flush_interval impl (cfg\<lparr>FlushInterval := a, BatchSize := b, ScaleFactor := c\<rparr>) m
     = flush_interval impl cfg m"
  by (simp add: flush_interval_def Let_def)

lemma unused_getSystemMetrics:
  "getSystemMetrics (cfg\<lparr>FlushInterval := a, BatchSize := b, ScaleFactor := c\<rparr>) cp u n
     = getSystemMetrics cfg cp u n"
  by (simp add: getSystemMetrics_def)

lemma unused_batch_request:
  "batch_request (cfg\<lparr>FlushInterval := a, BatchSize := b, ScaleFactor := c\<rparr>) bt
     = batch_request cfg bt"
  by (simp add: batch_request_def)

lemma unused_FlushBatch:
  "FlushBatch (cfg\<lparr>FlushInterval := a, BatchSize := b, ScaleFactor := c\<rparr>) bt w
     = FlushBatch cfg bt w"
  by (simp add: FlushBatch_def unused_batch_request)

lemma unused_on_message:
  "on_message impl (cfg\<lparr>FlushInterval := a, BatchSize := b, ScaleFactor := c\<rparr>) msg cp u w
     = on_message impl cfg msg cp u w"
  by (simp add: on_message_def unused_getSystemMetrics unused_calculate unused_flush_interval
        unused_FlushBatch Let_def)

lemma unused_on_tick:
  "on_tick (cfg\<lparr>FlushInterval := a, BatchSize := b, ScaleFactor := c\<rparr>) w = on_tick cfg w"
  by (simp add: on_tick_def unused_FlushBatch)

lemma unused_on_done:
  "on_done (cfg\<lparr>FlushInterval := a, BatchSize := b, ScaleFactor := c\<rparr>) w = on_done cfg w"
  by (simp add: on_done_def unused_FlushBatch Let_def)

lemma unused_step:
  "ProcessQueue_step impl (cfg\<lparr>FlushInterval := a, BatchSize := b, ScaleFactor := c\<rparr>) e w
     = ProcessQueue_step impl cfg e w"
  by (cases e)
     (simp_all add: unused_on_message unused_on_tick unused_on_done split: option.splits)

lemma unused_run:
  "ProcessQueue_run impl (cfg\<lparr>FlushInterval := a, BatchSize := b, ScaleFactor := c\<rparr>) es w
     = ProcessQueue_run impl cfg es w"
  by (induction es arbitrary: w) (simp_all add: unused_step split: sum.splits)

lemma unused_start:
  "ProcessQueue_start (cfg\<lparr>FlushInterval := a, BatchSize := b, ScaleFactor := c\<rparr>)
     = ProcessQueue_start cfg"
  by (simp add: ProcessQueue_start_def)

lemma unused_main:
  "main impl (cfg\<lparr>FlushInterval := a, BatchSize := b, ScaleFactor := c\<rparr>) as = main impl cfg as"
proof -
  have step: "main_step impl (cfg\<lparr>FlushInterval := a, BatchSize := b, ScaleFactor := c\<rparr>) x p
                = main_step impl cfg x p" for x p
  proof (cases x)
    case (Egress e)
    then show ?thesis
      by (cases e) (simp_all add: egress_step_def unused_step del: ProcessQueue_step.simps)
  qed simp_all
  have run: "main_run impl (cfg\<lparr>FlushInterval := a, BatchSize := b, ScaleFactor := c\<rparr>) xs p
               = main_run impl cfg xs p" for xs p
    by (induction xs arbitrary: p) (simp_all add: step split: sum.splits)
  show ?thesis by (simp add: main_def main_start_def unused_start run split: sum.splits)
qed

lemma unused_check_request:
  "check_request (cfg\<lparr>FlushInterval := a, BatchSize := b, ScaleFactor := c\<rparr>) n = check_request cfg n"
  by (simp add: check_request_def)

lemma unused_single_request:
  "single_request (cfg\<lparr>FlushInterval := a, BatchSize := b, ScaleFactor := c\<rparr>) m = single_request cfg m"
  by (simp add: single_request_def)

lemma unused_poll_and_reply:
  "poll_and_reply (cfg\<lparr>FlushInterval := a, BatchSize := b, ScaleFactor := c\<rparr>) up n s
     = poll_and_reply cfg up n s"
  by (simp add: poll_and_reply_def checkMessage_def unused_check_request)

lemma unused_sendSingleMessage:
  "sendSingleMessage (cfg\<lparr>FlushInterval := a, BatchSize := b, ScaleFactor := c\<rparr>) up msg s
     = sendSingleMessage cfg up msg s"
  by (simp add: sendSingleMessage_def unused_single_request)

lemma unused_ProcessMessage:
  "ProcessMessage (cfg\<lparr>FlushInterval := a, BatchSize := b, ScaleFactor := c\<rparr>) up msg s
     = ProcessMessage cfg up msg s"
  by (simp add: ProcessMessage_def unused_poll_and_reply unused_sendSingleMessage
        split: option.splits go_any.splits)

lemma unused_HandleConnection:
  "HandleConnection (cfg\<lparr>FlushInterval := a, BatchSize := b, ScaleFactor := c\<rparr>) up items s
     = HandleConnection cfg up items s"
  by (induction cfg up items s rule: HandleConnection.induct)
     (simp_all add: unused_ProcessMessage split: sum.splits option.splits)

lemma InitializeConfig_default:
  "InitializeConfig (default_flags\<lparr>apiKey := ''key''\<rparr>) '''' False = Inr (default_Config ''key'')"
  by (simp add: InitializeConfig_def default_flags_def default_Config_def)

lemma unused_flags:
  "InitializeConfig (fl\<lparr>flushInterval := a, batchSize := b, scaleFactor := c\<rparr>) key windows =
     map_sum id (\<lambda>cfg. cfg\<lparr>FlushInterval := a, BatchSize := b, ScaleFactor := c\<rparr>)
       (InitializeConfig fl key windows)"
  by (simp add: InitializeConfig_def Let_def)

text \<open>
  Claim C10. The flags \<open>-flushInterval\<close>, \<open>-batchSize\<close> and \<open>-scaleFactor\<close> set the
  fields \<open>FlushInterval\<close>, \<open>BatchSize\<close> and \<open>ScaleFactor\<close> and nothing else. A
  configuration changed in these three fields gives the same batch size, the same flush
  interval, the same run of the worker on every history, the same batch request and the
  same run of the connection handler on every stream; and the ticker of the worker starts
  at \<open>MinBatchInterval\<close>.
\<close>

theorem unused_options:
  "InitializeConfig (fl\<lparr>flushInterval := a, batchSize := b, scaleFactor := c\<rparr>) key windows =
     map_sum id (\<lambda>cfg. cfg\<lparr>FlushInterval := a, BatchSize := b, ScaleFactor := c\<rparr>)
       (InitializeConfig fl key windows)
   \<and> calculateDynamicBatchSize impl (cfg\<lparr>FlushInterval := a, BatchSize := b, ScaleFactor := c\<rparr>) m
     = calculateDynamicBatchSize impl cfg m
   \<and> flush_interval impl (cfg\<lparr>FlushInterval := a, BatchSize := b, ScaleFactor := c\<rparr>) m
     = flush_interval impl cfg m
   \<and> ProcessQueue impl (cfg\<lparr>FlushInterval := a, BatchSize := b, ScaleFactor := c\<rparr>) es
     = ProcessQueue impl cfg es
   \<and> batch_request (cfg\<lparr>FlushInterval := a, BatchSize := b, ScaleFactor := c\<rparr>) bt
     = batch_request cfg bt
   \<and> HandleConnection (cfg\<lparr>FlushInterval := a, BatchSize := b, ScaleFactor := c\<rparr>) up items s
     = HandleConnection cfg up items s
   \<and> (case ProcessQueue_start cfg of
         Inl p \<Rightarrow> True
       | Inr w \<Rightarrow> ticker w = Some (MinBatchInterval cfg))"
  by (simp add: unused_flags unused_calculate unused_flush_interval ProcessQueue_def unused_start
        unused_run unused_batch_request unused_HandleConnection ProcessQueue_start_def)

end
